theory Spec2Isabelle
  imports Complex_Main
begin

section \<open>Python values used by the program\<close>

text \<open>
  Exceptions are values: every function of the source that can raise returns a sum
  whose left injection is the exception.
\<close>

datatype error =
    IndexError
  | KeyError string
  | TypeError
  | AttributeError
  | RuntimeError string
  | LibraryError string

text \<open>\<^verbatim>\<open>xs[i]\<close> on a Python list: negative indices count from the end, anything else
  out of range raises IndexError.\<close>

definition py_index :: "'a list \<Rightarrow> int \<Rightarrow> error + 'a" where
  "py_index xs i =
     (if 0 \<le> i \<and> i < int (length xs) then Inr (xs ! nat i)
      else if i < 0 \<and> - int (length xs) \<le> i then Inr (xs ! nat (int (length xs) + i))
      else Inl IndexError)"

text \<open>\<^verbatim>\<open>str(n)\<close> for a Python int: decimal digits, with a leading minus sign.\<close>

definition digit_char :: "nat \<Rightarrow> char" where
  "digit_char d = ''0123456789'' ! d"

function str_nat :: "nat \<Rightarrow> string" where
  "str_nat n = (if n < 10 then [digit_char n] else str_nat (n div 10) @ [digit_char (n mod 10)])"
  by pat_completeness auto
termination
  by (relation "measure id") auto

declare str_nat.simps [simp del]

definition str_int :: "int \<Rightarrow> string" where
  "str_int i = (if i < 0 then CHR ''-'' # str_nat (nat (- i)) else str_nat (nat i))"

section \<open>config.py\<close>

definition CONFIDENCE :: real where
  "CONFIDENCE = 45 / 100"

definition EMOTION_NAMES :: "string list" where
  "EMOTION_NAMES =
     [''anger'', ''content'', ''disgust'', ''fear'', ''happy'', ''neutral'', ''sad'', ''surprise'']"

section \<open>utils/camera.py\<close>

subsection \<open>Frames, drawings and the two library models\<close>

text \<open>
  A detection is the tuple \<^verbatim>\<open>(x1, y1, x2, y2, class_id, conf)\<close> of \<^verbatim>\<open>_read_results\<close>.
  Confidences are Python floats; they are only compared here, so they are reals.
\<close>

type_synonym det = "int \<times> int \<times> int \<times> int \<times> int \<times> real"

definition det_cls :: "det \<Rightarrow> int" where
  "det_cls d = (case d of (x1, y1, x2, y2, c, p) \<Rightarrow> c)"

definition det_conf :: "det \<Rightarrow> real" where
  "det_conf d = (case d of (x1, y1, x2, y2, c, p) \<Rightarrow> p)"

text \<open>
  The text drawn next to a box. \<open>NameConf s p\<close> stands for the f-string
  \<^verbatim>\<open>f"{s} {p:0.2f}"\<close>, \<open>Dots\<close> for the bare \<^verbatim>\<open>"..."\<close>, and \<open>Status s p\<close> for the status
  line \<^verbatim>\<open>f"Current: {s} (conf {p:.2f})"\<close> of main.py. The decimal rendering of the float
  is left to the reader of the label.
\<close>

datatype label = Dots | NameConf string real | Status string real

type_synonym colour = "nat \<times> nat \<times> nat"

datatype draw =
    Rectangle int int int int colour
  | PutText label int int colour

text \<open>
  A frame is a numpy image that \<^verbatim>\<open>cv2.rectangle\<close> and \<^verbatim>\<open>cv2.putText\<close> change in place:
  its shape, the camera's pixels (opaque) and what has been drawn on it so far.
\<close>

record frame =
  height :: int
  width :: int
  pixels :: nat
  drawn :: "draw list"

text \<open>What \<^verbatim>\<open>model.predict\<close> is given: the whole frame, or the slice
  \<^verbatim>\<open>frame[y1:y2, x1:x2]\<close>, a view of the frame as it is at that moment.\<close>

datatype source = Whole frame | Crop frame int int int int

text \<open>One element of the list \<^verbatim>\<open>model.predict\<close> returns: its \<^verbatim>\<open>boxes\<close> attribute,
  absent or the rows of \<^verbatim>\<open>xyxy\<close>, \<^verbatim>\<open>cls\<close> and \<^verbatim>\<open>conf\<close> already converted to numbers.\<close>

record yolo_result =
  boxes :: "det list option"

text \<open>
  The two external collaborators: the detection model (source, imgsz, conf, iou) and the
  Haar cascade (\<^verbatim>\<open>detectMultiScale\<close> on the grayscale frame, with the fixed parameters of
  the source), which returns rectangles \<^verbatim>\<open>(x, y, w, h)\<close>.
\<close>

record vision =
  predict :: "source \<Rightarrow> nat \<Rightarrow> real \<Rightarrow> real \<Rightarrow> yolo_result list"
  detectMultiScale :: "frame \<Rightarrow> (int \<times> int \<times> int \<times> int) list"

subsection \<open>\<^verbatim>\<open>_read_results\<close> and \<^verbatim>\<open>predict_on_face_crop\<close>\<close>

definition read_results :: "yolo_result list \<Rightarrow> det list" where
  "read_results results =
     (case results of
        [] \<Rightarrow> []
      | r # _ \<Rightarrow>
          (case boxes r of
             None \<Rightarrow> []
           | Some bs \<Rightarrow> if length bs = 0 then [] else bs))"

text \<open>\<^verbatim>\<open>max(dets, key=lambda x: x[5])\<close>: the first detection of maximal confidence.\<close>

fun max_by_conf :: "det \<Rightarrow> det list \<Rightarrow> det" where
  "max_by_conf best [] = best"
| "max_by_conf best (d # ds) = max_by_conf (if det_conf d > det_conf best then d else best) ds"

definition predict_on_face_crop ::
  "vision \<Rightarrow> source \<Rightarrow> nat \<Rightarrow> real \<Rightarrow> real \<Rightarrow> int option \<times> real" where
  "predict_on_face_crop V crop imgsz conf iou =
     (let dets = read_results (predict V crop imgsz conf iou)
      in case dets of
           [] \<Rightarrow> (None, 0)
         | d # ds \<Rightarrow> (let best = max_by_conf d ds in (Some (det_cls best), det_conf best)))"

subsection \<open>\<^verbatim>\<open>detect_and_draw\<close>\<close>

text \<open>
  The local variables of \<^verbatim>\<open>detect_and_draw\<close> that its loops change, and a log of the
  sources handed to \<^verbatim>\<open>model.predict\<close>, in call order.
\<close>

record agg =
  a_frame :: frame
  dominant_emotion :: "string option"
  dominant_conf :: real
  predict_calls :: "source list"

text \<open>Lines 82 and 95: \<^verbatim>\<open>EMOTION_NAMES[cls_id] if cls_id < len(EMOTION_NAMES) else str(cls_id)\<close>.\<close>

definition dominant_name :: "int \<Rightarrow> error + string" where
  "dominant_name cls_id =
     (if cls_id < int (length EMOTION_NAMES) then py_index EMOTION_NAMES cls_id
      else Inr (str_int cls_id))"

text \<open>Lines 85 and 96: \<^verbatim>\<open>EMOTION_NAMES[cls_id] if ... cls_id < len(EMOTION_NAMES) else '...'\<close>.\<close>

definition label_name :: "int \<Rightarrow> error + string" where
  "label_name cls_id =
     (if cls_id < int (length EMOTION_NAMES) then py_index EMOTION_NAMES cls_id
      else Inr ''...'')"

text \<open>Lines 80-82 and 93-95: the dominant emotion changes only on a strictly greater
  confidence.\<close>

definition update_dominant :: "int option \<Rightarrow> real \<Rightarrow> agg \<Rightarrow> error + agg" where
  "update_dominant cls_id cls_conf st =
     (case cls_id of
        None \<Rightarrow> Inr st
      | Some c \<Rightarrow>
          if cls_conf > dominant_conf st then
            (case dominant_name c of
               Inl e \<Rightarrow> Inl e
             | Inr n \<Rightarrow> Inr (st\<lparr>dominant_conf := cls_conf, dominant_emotion := Some n\<rparr>))
          else Inr st)"

text \<open>Line 85, the label of a face.\<close>

definition face_label :: "int option \<Rightarrow> real \<Rightarrow> error + label" where
  "face_label cls_id cls_conf =
     (case cls_id of
        None \<Rightarrow> Inr Dots
      | Some c \<Rightarrow> (case label_name c of Inl e \<Rightarrow> Inl e | Inr n \<Rightarrow> Inr (NameConf n cls_conf)))"

text \<open>Line 96, the label of a whole-frame detection.\<close>

definition det_label :: "int \<Rightarrow> real \<Rightarrow> error + label" where
  "det_label cls_id cls_conf =
     (case label_name cls_id of Inl e \<Rightarrow> Inl e | Inr n \<Rightarrow> Inr (NameConf n cls_conf))"

definition draw_box :: "int \<Rightarrow> int \<Rightarrow> int \<Rightarrow> int \<Rightarrow> label \<Rightarrow> colour \<Rightarrow> frame \<Rightarrow> frame" where
  "draw_box x1 y1 x2 y2 lab col f =
     f\<lparr>drawn := drawn f @ [Rectangle x1 y1 x2 y2 col, PutText lab x1 (y1 - 8) col]\<rparr>"

text \<open>
  \<^verbatim>\<open>int(0.15 * max(fw, fh))\<close>: the product truncated towards zero. For the side lengths
  of an image the float product has the integer part of the exact product \<open>3 m / 20\<close>.
\<close>

definition pad_of :: "int \<Rightarrow> int" where
  "pad_of m = (if 0 \<le> m then (15 * m) div 100 else - ((15 * (- m)) div 100))"

text \<open>The body of the loop over the faces (lines 71-87); \<open>h\<close> and \<open>w\<close> are read from the
  frame's shape before the loop.\<close>

definition face_step ::
  "vision \<Rightarrow> nat \<Rightarrow> real \<Rightarrow> real \<Rightarrow> int \<Rightarrow> int \<Rightarrow> (int \<times> int \<times> int \<times> int) \<Rightarrow> agg \<Rightarrow> error + agg" where
  "face_step V imgsz conf iou h w face st =
     (case face of (x, y, fw, fh) \<Rightarrow>
        (let pad = pad_of (max fw fh);
             x1 = max 0 (x - pad);
             y1 = max 0 (y - pad);
             x2 = min w (x + fw + pad);
             y2 = min h (y + fh + pad);
             crop = Crop (a_frame st) y1 y2 x1 x2;
             (cls_id, cls_conf) = predict_on_face_crop V crop imgsz conf iou;
             st1 = st\<lparr>predict_calls := predict_calls st @ [crop]\<rparr>
         in case update_dominant cls_id cls_conf st1 of
              Inl e \<Rightarrow> Inl e
            | Inr st2 \<Rightarrow>
                (case face_label cls_id cls_conf of
                   Inl e \<Rightarrow> Inl e
                 | Inr lab \<Rightarrow>
                     Inr (st2\<lparr>a_frame := draw_box x1 y1 x2 y2 lab (0, 200, 0) (a_frame st2)\<rparr>))))"

fun faces_loop ::
  "vision \<Rightarrow> nat \<Rightarrow> real \<Rightarrow> real \<Rightarrow> int \<Rightarrow> int \<Rightarrow> (int \<times> int \<times> int \<times> int) list \<Rightarrow> agg \<Rightarrow> error + agg" where
  "faces_loop V imgsz conf iou h w [] st = Inr st"
| "faces_loop V imgsz conf iou h w (face # faces) st =
     (case face_step V imgsz conf iou h w face st of
        Inl e \<Rightarrow> Inl e
      | Inr st' \<Rightarrow> faces_loop V imgsz conf iou h w faces st')"

text \<open>The body of the loop over the whole-frame detections (lines 92-98).\<close>

definition det_step :: "det \<Rightarrow> agg \<Rightarrow> error + agg" where
  "det_step d st =
     (case d of (x1, y1, x2, y2, cls_id, cls_conf) \<Rightarrow>
        (case update_dominant (Some cls_id) cls_conf st of
           Inl e \<Rightarrow> Inl e
         | Inr st2 \<Rightarrow>
             (case det_label cls_id cls_conf of
                Inl e \<Rightarrow> Inl e
              | Inr lab \<Rightarrow>
                  Inr (st2\<lparr>a_frame := draw_box x1 y1 x2 y2 lab (255, 100, 0) (a_frame st2)\<rparr>))))"

fun dets_loop :: "det list \<Rightarrow> agg \<Rightarrow> error + agg" where
  "dets_loop [] st = Inr st"
| "dets_loop (d # ds) st =
     (case det_step d st of Inl e \<Rightarrow> Inl e | Inr st' \<Rightarrow> dets_loop ds st')"

text \<open>\<^verbatim>\<open>detect_and_draw\<close> with the log of its \<^verbatim>\<open>model.predict\<close> calls kept in the result.\<close>

definition detect_and_draw_traced ::
  "vision \<Rightarrow> frame \<Rightarrow> nat \<Rightarrow> real \<Rightarrow> real \<Rightarrow> error + agg" where
  "detect_and_draw_traced V fr imgsz conf iou =
     (let h = height fr; w = width fr;
          faces = detectMultiScale V fr;
          st = \<lparr>a_frame = fr, dominant_emotion = None, dominant_conf = 0, predict_calls = []\<rparr>
      in if length faces > 0 then faces_loop V imgsz conf iou h w faces st
         else
           (let dets = read_results (predict V (Whole fr) imgsz conf iou);
                st1 = st\<lparr>predict_calls := [Whole fr]\<rparr>
            in dets_loop dets st1))"

text \<open>What the source returns: \<^verbatim>\<open>(frame, dominant_emotion, dominant_conf)\<close>.\<close>

definition detect_and_draw ::
  "vision \<Rightarrow> frame \<Rightarrow> nat \<Rightarrow> real \<Rightarrow> real \<Rightarrow> error + (frame \<times> string option \<times> real)" where
  "detect_and_draw V fr imgsz conf iou =
     (case detect_and_draw_traced V fr imgsz conf iou of
        Inl e \<Rightarrow> Inl e
      | Inr st \<Rightarrow> Inr (a_frame st, dominant_emotion st, dominant_conf st))"


section \<open>JSON values and the outside world\<close>

text \<open>
  What \<^verbatim>\<open>json.load\<close> and the web API hand to the program: Python values built from
  \<^verbatim>\<open>None\<close>, booleans, integers, strings, lists and dicts (a dict is its list of items).
\<close>

datatype jval =
    JNull
  | JBool bool
  | JNum int
  | JStr string
  | JArr "jval list"
  | JObj "(string \<times> jval) list"

text \<open>Python truthiness, as \<^verbatim>\<open>if x:\<close> and \<^verbatim>\<open>if not x:\<close> test it.\<close>

fun truthy :: "jval \<Rightarrow> bool" where
  "truthy JNull = False"
| "truthy (JBool b) = b"
| "truthy (JNum n) = (n \<noteq> 0)"
| "truthy (JStr s) = (s \<noteq> [])"
| "truthy (JArr xs) = (xs \<noteq> [])"
| "truthy (JObj kvs) = (kvs \<noteq> [])"

text \<open>\<^verbatim>\<open>d.get(k, default)\<close>: only a dict has the method.\<close>

fun py_get :: "jval \<Rightarrow> string \<Rightarrow> jval \<Rightarrow> error + jval" where
  "py_get (JObj kvs) k dflt = Inr (case map_of kvs k of None \<Rightarrow> dflt | Some v \<Rightarrow> v)"
| "py_get v k dflt = Inl AttributeError"

text \<open>\<^verbatim>\<open>d[k]\<close> with a string key.\<close>

fun py_item :: "jval \<Rightarrow> string \<Rightarrow> error + jval" where
  "py_item (JObj kvs) k = (case map_of kvs k of None \<Rightarrow> Inl (KeyError k) | Some v \<Rightarrow> Inr v)"
| "py_item v k = Inl TypeError"

text \<open>\<^verbatim>\<open>v - n\<close> for an int \<^verbatim>\<open>n\<close>: a bool counts as 0 or 1, anything but a number raises.\<close>

fun py_minus :: "jval \<Rightarrow> int \<Rightarrow> error + int" where
  "py_minus (JNum a) n = Inr (a - n)"
| "py_minus (JBool b) n = Inr ((if b then 1 else 0) - n)"
| "py_minus v n = Inl TypeError"

text \<open>
  The trace of a run: every call that leaves the program (token endpoint, playback API,
  file system, browser, shell, keyboard, window), every \<^verbatim>\<open>print\<close> (by its fixed text), and
  the calls of main.py into the other modules.
\<close>

datatype event =
    Print string
  | Refresh jval
  | WriteCache jval
  | RemoveCache
  | OpenBrowser string
  | ReadInput
  | Exchange "string option"
  | Devices jval
  | StartPlayback jval jval string
  | Startfile string
  | CmdStart string
  | Imshow frame
  | Call string

text \<open>The cache file \<^verbatim>\<open>.cache-spotify\<close>: missing, there but not readable as JSON, or holding
  a JSON value.\<close>

datatype cache = Absent | Corrupt | Stored jval

record world =
  cache_file :: cache
  trace :: "event list"

definition emit :: "event list \<Rightarrow> world \<Rightarrow> world" where
  "emit es w = w\<lparr>trace := trace w @ es\<rparr>"

text \<open>
  The answers of everything outside the program. A library call that can raise returns
  a sum or an \<open>error option\<close>. \<open>cache_write\<close> says how the two steps of
  \<^verbatim>\<open>_write_cache\<close> end, and \<open>can_remove\<close> whether \<^verbatim>\<open>os.remove\<close> succeeds.
\<close>

text \<open>
  How a write of the cache file ends. \<^verbatim>\<open>open(path, "w")\<close> can raise, and then the file is
  as it was. Once it has returned the file is truncated, so when \<^verbatim>\<open>json.dump\<close> raises
  after it the file is left empty or cut short, which \<^verbatim>\<open>json.load\<close> cannot read.
\<close>

datatype write_outcome = Written | OpenFails | DumpFails

record services =
  now :: int
  refresh_access_token :: "jval \<Rightarrow> error + jval"
  get_authorize_url :: string
  pasted :: string
  parse_response_code :: "string \<Rightarrow> error + string option"
  query_code :: "string \<Rightarrow> string option"
  get_access_token :: "string option \<Rightarrow> error + jval"
  is_token_expired :: "jval \<Rightarrow> error + bool"
  sp_devices :: "jval \<Rightarrow> error + jval"
  sp_start_playback :: "jval \<Rightarrow> jval \<Rightarrow> string \<Rightarrow> error option"
  cache_write :: write_outcome
  can_remove :: bool
  startfile :: "string \<Rightarrow> error option"
  cmd_start :: "string \<Rightarrow> error option"
  webbrowser_open :: "string \<Rightarrow> error option"

section \<open>utils/emotion\_to\_song.py\<close>

definition PLAYLISTS :: "(string \<times> string) list" where
  "PLAYLISTS =
     [(''anger'', ''spotify:playlist:37i9dQZF1DX8tZsk68tuDw''),
      (''content'', ''spotify:playlist:37i9dQZF1DX4WYpdgoIcn6''),
      (''disgust'', ''spotify:playlist:37i9dQZF1DX4VvfRBFClxm''),
      (''fear'', ''spotify:playlist:37i9dQZF1DWXRqgorJj26U''),
      (''happy'', ''spotify:playlist:37i9dQZF1DXdPec7aLTmlC''),
      (''neutral'', ''spotify:playlist:37i9dQZF1DX4sWSpwq3LiO''),
      (''sad'', ''spotify:playlist:37i9dQZF1DX7qK8ma5wgG1''),
      (''surprise'', ''spotify:playlist:37i9dQZF1DXcBWIGoYBM5M'')]"

text \<open>\<^verbatim>\<open>str.lower()\<close> on the ASCII strings this program handles: the capital letters
  change, every other character stays.\<close>

definition lower_char :: "char \<Rightarrow> char" where
  "lower_char c =
     (case map_of (zip ''ABCDEFGHIJKLMNOPQRSTUVWXYZ'' ''abcdefghijklmnopqrstuvwxyz'') c of
        None \<Rightarrow> c
      | Some l \<Rightarrow> l)"

definition lower :: "string \<Rightarrow> string" where
  "lower s = map lower_char s"

definition get_playlist_for_emotion :: "string \<Rightarrow> string option" where
  "get_playlist_for_emotion emotion = map_of PLAYLISTS (lower emotion)"

section \<open>utils/spotify\_client.py\<close>

text \<open>
  \<^verbatim>\<open>_write_cache\<close>: \<^verbatim>\<open>open(path, "w")\<close> and \<^verbatim>\<open>json.dump\<close> in one \<^verbatim>\<open>try\<close>. An exception of
  either is printed and swallowed; the file is then unchanged (the open failed) or
  truncated (the dump failed).
\<close>

definition write_cache :: "services \<Rightarrow> jval \<Rightarrow> world \<Rightarrow> world" where
  "write_cache S token_info w =
     (case cache_write S of
        Written \<Rightarrow> (emit [WriteCache token_info] w)\<lparr>cache_file := Stored token_info\<rparr>
      | OpenFails \<Rightarrow> emit [WriteCache token_info, Print ''Failed writing token cache:''] w
      | DumpFails \<Rightarrow>
          (emit [WriteCache token_info, Print ''Failed writing token cache:''] w)\<lparr>cache_file := Corrupt\<rparr>)"

text \<open>\<^verbatim>\<open>_read_cache\<close>: \<^verbatim>\<open>None\<close> when the file is missing or cannot be read.\<close>

definition read_cache :: "world \<Rightarrow> jval \<times> world" where
  "read_cache w =
     (case cache_file w of
        Absent \<Rightarrow> (JNull, w)
      | Corrupt \<Rightarrow> (JNull, emit [Print ''Failed reading token cache:''] w)
      | Stored v \<Rightarrow> (v, w))"

text \<open>\<^verbatim>\<open>if not code\<close> on the result of \<^verbatim>\<open>parse_response_code\<close>.\<close>

definition code_missing :: "string option \<Rightarrow> bool" where
  "code_missing code = (case code of None \<Rightarrow> True | Some c \<Rightarrow> c = [])"

definition run_interactive_auth :: "services \<Rightarrow> world \<Rightarrow> (error + jval) \<times> world" where
  "run_interactive_auth S w =
     (let auth_url = get_authorize_url S;
          w1 = emit [Print ''Opening browser for Spotify authorization (first-time only).'',
                     Print auth_url, OpenBrowser auth_url] w
      in case webbrowser_open S auth_url of
           Some e \<Rightarrow> (Inl e, w1)
         | None \<Rightarrow>
             (let w2 = emit [Print ''After authorizing, Spotify will redirect to the redirect URI.'',
                             Print ''Copy the full redirect URL from the browser address bar and paste it here.'',
                             ReadInput] w1;
                  redirect_response = pasted S
              in case parse_response_code S redirect_response of
                   Inl e \<Rightarrow> (Inl e, w2)
                 | Inr code0 \<Rightarrow>
                     (let code = (if code_missing code0 then query_code S redirect_response else code0);
                          w3 = emit [Exchange code] w2
                      in case get_access_token S code of
                           Inl e \<Rightarrow> (Inl e, w3)
                         | Inr token_info \<Rightarrow> (Inr token_info, write_cache S token_info w3))))"

text \<open>Lines 90-106 of \<^verbatim>\<open>ensure_spotify_client\<close>: the expiry check and the silent refresh.
  The result is the new value of \<^verbatim>\<open>token_info\<close>.\<close>

definition check_cached :: "services \<Rightarrow> jval \<Rightarrow> world \<Rightarrow> (error + jval) \<times> world" where
  "check_cached S token_info w =
     (if truthy token_info then
        (case py_get token_info ''expires_at'' (JNum 0) of
           Inl e \<Rightarrow> (Inl e, w)
         | Inr expires_at \<Rightarrow>
             (case py_minus expires_at (now S) of
                Inl e \<Rightarrow> (Inl e, w)
              | Inr remaining \<Rightarrow>
                  if remaining < 60 then
                    (case py_get token_info ''refresh_token'' JNull of
                       Inl e \<Rightarrow> (Inl e, w)
                     | Inr refresh_token \<Rightarrow>
                         if truthy refresh_token then
                           (case refresh_access_token S refresh_token of
                              Inl e \<Rightarrow> (Inr JNull, emit [Refresh refresh_token, Print ''Refresh failed:''] w)
                            | Inr new_token \<Rightarrow>
                                (Inr new_token, write_cache S new_token (emit [Refresh refresh_token] w)))
                         else (Inr JNull, w))
                  else (Inr token_info, w)))
      else (Inr token_info, w))"

text \<open>
  Lines 108-113 of \<^verbatim>\<open>ensure_spotify_client\<close>: the interactive flow when \<^verbatim>\<open>token_info\<close> is
  falsy, then the client. The function returns \<^verbatim>\<open>(sp, oauth, token_info)\<close>; the client
  \<^verbatim>\<open>sp\<close> is the access token it was built with, and \<^verbatim>\<open>oauth\<close> is built from constants
  and carries no state, so it is left out of the result.
\<close>

definition finish_client :: "services \<Rightarrow> jval \<Rightarrow> world \<Rightarrow> (error + (jval \<times> jval)) \<times> world" where
  "finish_client S token_info w =
     (case (if \<not> truthy token_info then run_interactive_auth S w else (Inr token_info, w)) of
        (Inl e, w3) \<Rightarrow> (Inl e, w3)
      | (Inr token_info', w3) \<Rightarrow>
          (case py_item token_info' ''access_token'' of
             Inl e \<Rightarrow> (Inl e, w3)
           | Inr tok \<Rightarrow> (Inr (tok, token_info'), w3)))"

definition ensure_spotify_client :: "services \<Rightarrow> world \<Rightarrow> (error + (jval \<times> jval)) \<times> world" where
  "ensure_spotify_client S w =
     (case read_cache w of (cached, w1) \<Rightarrow>
        (case check_cached S cached w1 of
           (Inl e, w2) \<Rightarrow> (Inl e, w2)
         | (Inr token_info, w2) \<Rightarrow> finish_client S token_info w2))"

text \<open>The loop of \<^verbatim>\<open>get_active_device_id\<close>: the id of the first device flagged active.\<close>

fun first_active :: "jval list \<Rightarrow> error + jval option" where
  "first_active [] = Inr None"
| "first_active (d # ds) =
     (case py_get d ''is_active'' JNull of
        Inl e \<Rightarrow> Inl e
      | Inr a \<Rightarrow> if truthy a then (case py_get d ''id'' JNull of Inl e \<Rightarrow> Inl e | Inr i \<Rightarrow> Inr (Some i))
                 else first_active ds)"

text \<open>The body of the \<^verbatim>\<open>try\<close> of \<^verbatim>\<open>get_active_device_id\<close>, given the answer of
  \<^verbatim>\<open>sp.devices()\<close>. Iterating a value that is no list, or whose elements are no dicts,
  raises.\<close>

definition pick_device :: "jval \<Rightarrow> error + jval" where
  "pick_device response =
     (case py_get response ''devices'' (JArr []) of
        Inl e \<Rightarrow> Inl e
      | Inr devices \<Rightarrow>
          if \<not> truthy devices then Inr JNull
          else
            (case devices of
               JArr ds \<Rightarrow>
                 (case first_active ds of
                    Inl e \<Rightarrow> Inl e
                  | Inr (Some i) \<Rightarrow> Inr i
                  | Inr None \<Rightarrow> (case ds of [] \<Rightarrow> Inl IndexError | d # _ \<Rightarrow> py_get d ''id'' JNull))
             | JObj kvs \<Rightarrow> Inl AttributeError
             | JStr s \<Rightarrow> Inl AttributeError
             | _ \<Rightarrow> Inl TypeError))"

definition get_active_device_id :: "services \<Rightarrow> jval \<Rightarrow> world \<Rightarrow> jval \<times> world" where
  "get_active_device_id S sp w =
     (let w1 = emit [Devices sp] w
      in case sp_devices S sp of
           Inl e \<Rightarrow> (JNull, emit [Print ''devices() error:''] w1)
         | Inr response \<Rightarrow>
             (case pick_device response of
                Inl e \<Rightarrow> (JNull, emit [Print ''devices() error:''] w1)
              | Inr dev \<Rightarrow> (dev, w1)))"

text \<open>Lines 136-139 of \<^verbatim>\<open>start_playback\<close>: the refresh of an expired token. The result is
  the client to go on with.\<close>

definition refresh_if_expired ::
  "services \<Rightarrow> jval \<Rightarrow> bool \<Rightarrow> jval \<Rightarrow> world \<Rightarrow> (error + jval) \<times> world" where
  "refresh_if_expired S sp oauth token_info w =
     (if \<not> oauth then (Inr sp, w)
      else
        (case is_token_expired S token_info of
           Inl e \<Rightarrow> (Inl e, w)
         | Inr False \<Rightarrow> (Inr sp, w)
         | Inr True \<Rightarrow>
             (case py_item token_info ''refresh_token'' of
                Inl e \<Rightarrow> (Inl e, w)
              | Inr rt \<Rightarrow>
                  (case refresh_access_token S rt of
                     Inl e \<Rightarrow> (Inl e, emit [Refresh rt] w)
                   | Inr new_token \<Rightarrow>
                       (let w1 = write_cache S new_token (emit [Refresh rt] w)
                        in case py_item new_token ''access_token'' of
                             Inl e \<Rightarrow> (Inl e, w1)
                           | Inr tok \<Rightarrow> (Inr tok, w1))))))"

text \<open>The \<^verbatim>\<open>try\<close> block of \<^verbatim>\<open>start_playback\<close> (lines 135-146): \<open>None\<close> when it reaches
  \<^verbatim>\<open>return True\<close>, the exception otherwise.\<close>

definition api_playback ::
  "services \<Rightarrow> jval \<Rightarrow> bool \<Rightarrow> jval \<Rightarrow> string \<Rightarrow> world \<Rightarrow> error option \<times> world" where
  "api_playback S sp oauth token_info playlist_uri w =
     (case refresh_if_expired S sp oauth token_info w of
        (Inl e, w1) \<Rightarrow> (Some e, w1)
      | (Inr sp', w1) \<Rightarrow>
          (case get_active_device_id S sp' w1 of (dev_id, w2) \<Rightarrow>
             if \<not> truthy dev_id then (Some (RuntimeError ''No active Spotify device found''), w2)
             else (sp_start_playback S sp' dev_id playlist_uri,
                   emit [StartPlayback sp' dev_id playlist_uri] w2)))"

text \<open>\<^verbatim>\<open>playlist_uri.split(":")[-1]\<close>: what follows the last colon.\<close>

definition last_segment :: "string \<Rightarrow> string" where
  "last_segment s = rev (takeWhile (\<lambda>c. c \<noteq> CHR '':'') (rev s))"

definition startswith :: "string \<Rightarrow> string \<Rightarrow> bool" where
  "startswith s p = (take (length p) s = p)"

text \<open>The \<^verbatim>\<open>except\<close> block of \<^verbatim>\<open>start_playback\<close> (lines 149-166): the OS handler, else the
  shell, else the browser; an exception of the last attempt is printed.\<close>

definition fallback_open :: "services \<Rightarrow> string \<Rightarrow> world \<Rightarrow> world" where
  "fallback_open S playlist_uri w =
     (let w1 = emit [Print ''API playback failed:''] w
      in if startswith playlist_uri ''spotify:playlist:'' then
           (case startfile S playlist_uri of
              None \<Rightarrow> emit [Startfile playlist_uri] w1
            | Some e1 \<Rightarrow>
                (case cmd_start S playlist_uri of
                   None \<Rightarrow> emit [Startfile playlist_uri, CmdStart playlist_uri] w1
                 | Some e2 \<Rightarrow>
                     (let url = ''https://open.spotify.com/playlist/'' @ last_segment playlist_uri;
                          w2 = emit [Startfile playlist_uri, CmdStart playlist_uri, OpenBrowser url] w1
                      in case webbrowser_open S url of
                           None \<Rightarrow> w2
                         | Some e3 \<Rightarrow> emit [Print ''Fallback error:''] w2)))
         else
           (let w2 = emit [OpenBrowser playlist_uri] w1
            in case webbrowser_open S playlist_uri of
                 None \<Rightarrow> w2
               | Some e3 \<Rightarrow> emit [Print ''Fallback error:''] w2))"

definition start_playback ::
  "services \<Rightarrow> jval \<Rightarrow> bool \<Rightarrow> jval \<Rightarrow> string \<Rightarrow> world \<Rightarrow> bool \<times> world" where
  "start_playback S sp oauth token_info playlist_uri w =
     (case api_playback S sp oauth token_info playlist_uri w of
        (None, w1) \<Rightarrow> (True, w1)
      | (Some e, w1) \<Rightarrow> (False, fallback_open S playlist_uri w1))"

text \<open>\<^verbatim>\<open>force_reauth\<close>: a failing \<^verbatim>\<open>os.remove\<close> is printed and swallowed.\<close>

definition force_reauth :: "services \<Rightarrow> world \<Rightarrow> world" where
  "force_reauth S w =
     (if cache_file w \<noteq> Absent then
        (if can_remove S then (emit [RemoveCache, Print ''Deleted cache:''] w)\<lparr>cache_file := Absent\<rparr>
         else emit [RemoveCache, Print ''Failed to delete cache:''] w)
      else w)"

section \<open>main.py\<close>

text \<open>The two locals of \<^verbatim>\<open>main\<close> that outlive a loop iteration.\<close>

record session =
  current_emotion :: "string option"
  current_conf :: real

definition initial_session :: session where
  "initial_session = \<lparr>current_emotion = None, current_conf = 0\<rparr>"

text \<open>Lines 61-63: \<^verbatim>\<open>if dom_emotion:\<close> holds for a string that is neither \<^verbatim>\<open>None\<close> nor
  empty.\<close>

definition update_session :: "string option \<Rightarrow> real \<Rightarrow> session \<Rightarrow> session" where
  "update_session dom_emotion dom_conf sess =
     (case dom_emotion of
        None \<Rightarrow> sess
      | Some e \<Rightarrow> if e \<noteq> [] then \<lparr>current_emotion = Some e, current_conf = dom_conf\<rparr> else sess)"

datatype control = Continue | Break

text \<open>
  Lines 96-115: credential, playback, exit. \<^verbatim>\<open>start_playback\<close> catches every exception
  itself, so the \<^verbatim>\<open>except\<close> of line 111 is never entered.
\<close>

definition play_captured :: "services \<Rightarrow> string \<Rightarrow> world \<Rightarrow> control \<times> world" where
  "play_captured S playlist_uri w =
     (case ensure_spotify_client S (emit [Call ''ensure_spotify_client''] w) of
        (Inl e, w2) \<Rightarrow>
          (Continue, emit [Print ''Spotify authorization failed:'',
             Print ''If you want to re-auth manually, press 'r' and try again.''] w2)
      | (Inr (sp, token_info), w2) \<Rightarrow>
          (case start_playback S sp True token_info playlist_uri (emit [Call ''start_playback''] w2) of
             (ok, w3) \<Rightarrow>
               (Break, emit [Print (if ok then ''Playback started via Spotify API.''
                                    else ''Playback fallback used (opened app/web).''),
                             Print ''Done. Exiting program.''] w3)))"

text \<open>Lines 85-115, the branch of the key \<^verbatim>\<open>q\<close>. \<^verbatim>\<open>if not playlist_uri\<close> holds for
  \<^verbatim>\<open>None\<close> and for the empty string.\<close>

definition capture :: "services \<Rightarrow> session \<Rightarrow> world \<Rightarrow> control \<times> world" where
  "capture S sess w =
     (case current_emotion sess of
        None \<Rightarrow> (Continue, emit [Print ''No emotion detected yet. Keep your face in frame and try again.''] w)
      | Some emotion \<Rightarrow>
          (let w1 = emit [Print ''Captured emotion:'', Call ''get_playlist_for_emotion''] w;
               playlist_uri = get_playlist_for_emotion emotion
           in case playlist_uri of
                None \<Rightarrow> (Continue, emit [Print ''No playlist mapped for emotion:''] w1)
              | Some uri \<Rightarrow>
                  if uri = [] then (Continue, emit [Print ''No playlist mapped for emotion:''] w1)
                  else play_captured S uri w1))"

text \<open>Lines 71-115: what a key press does. \<open>key\<close> is \<^verbatim>\<open>cv2.waitKey(1) & 0xFF\<close>.\<close>

definition on_key :: "services \<Rightarrow> nat \<Rightarrow> session \<Rightarrow> world \<Rightarrow> control \<times> world" where
  "on_key S key sess w =
     (if key = 27 then (Break, emit [Print ''Exit requested. Goodbye.''] w)
      else if key = 114 then
        (Continue,
         force_reauth S
           (emit [Print ''Forcing re-auth: deleting cached token and will re-authorize on next play.'',
                  Call ''force_reauth''] w))
      else if key = 113 then capture S sess w
      else (Continue, w))"

text \<open>One tick of the camera: whether \<^verbatim>\<open>cap.read()\<close> succeeded, the frame, and the key.\<close>

record tick =
  ret :: bool
  shot :: frame
  key :: nat

text \<open>Line 66: \<^verbatim>\<open>current_emotion or 'None'\<close>.\<close>

definition status_name :: "string option \<Rightarrow> string" where
  "status_name e = (case e of None \<Rightarrow> ''None'' | Some s \<Rightarrow> if s = [] then ''None'' else s)"

text \<open>The body of the \<^verbatim>\<open>while True\<close> loop (lines 52-115). An exception of
  \<^verbatim>\<open>detect_and_draw\<close> is not caught and ends the program.\<close>

definition loop_body ::
  "vision \<Rightarrow> services \<Rightarrow> tick \<Rightarrow> session \<times> world \<Rightarrow> error + (control \<times> session \<times> world)" where
  "loop_body V S t sw =
     (case sw of (sess, w) \<Rightarrow>
        if \<not> ret t then Inr (Break, sess, emit [Print ''Failed to read frame from webcam.''] w)
        else
          (case detect_and_draw V (shot t) 640 CONFIDENCE (45 / 100) of
             Inl e \<Rightarrow> Inl e
           | Inr (annotated, dom_emotion, dom_conf) \<Rightarrow>
               (let sess' = update_session dom_emotion dom_conf sess;
                    status = Status (status_name (current_emotion sess')) (current_conf sess');
                    shown = annotated\<lparr>drawn := drawn annotated @ [PutText status 10 30 (255, 255, 255)]\<rparr>;
                    w1 = emit [Imshow shown] w
                in case on_key S (key t) sess' w1 of (c, w2) \<Rightarrow> Inr (c, sess', w2))))"

text \<open>The loop over the ticks the camera delivers: it ends at \<^verbatim>\<open>break\<close>, at an exception, or
  with the last tick given.\<close>

fun main_loop ::
  "vision \<Rightarrow> services \<Rightarrow> tick list \<Rightarrow> session \<times> world \<Rightarrow> error + (session \<times> world)" where
  "main_loop V S [] sw = Inr sw"
| "main_loop V S (t # ts) sw =
     (case loop_body V S t sw of
        Inl e \<Rightarrow> Inl e
      | Inr (Break, sess, w) \<Rightarrow> Inr (sess, w)
      | Inr (Continue, sess, w) \<Rightarrow> main_loop V S ts (sess, w))"

section \<open>Vocabulary of the properties\<close>

text \<open>The classification results one run of \<^verbatim>\<open>detect_and_draw\<close> considers, in order: one
  per face (the result of \<^verbatim>\<open>predict_on_face_crop\<close> on each logged crop), or else the
  detections of the whole-frame call.\<close>

definition classified :: "vision \<Rightarrow> frame \<Rightarrow> nat \<Rightarrow> real \<Rightarrow> real \<Rightarrow> agg \<Rightarrow> (int option \<times> real) list" where
  "classified V fr imgsz conf iou st =
     (if length (detectMultiScale V fr) > 0
      then map (\<lambda>src. predict_on_face_crop V src imgsz conf iou) (predict_calls st)
      else map (\<lambda>d. (Some (det_cls d), det_conf d)) (read_results (predict V (Whole fr) imgsz conf iou)))"

text \<open>The per-face results for a list of crops.\<close>

definition face_results :: "vision \<Rightarrow> nat \<Rightarrow> real \<Rightarrow> real \<Rightarrow> source list \<Rightarrow> (int option \<times> real) list" where
  "face_results V imgsz conf iou srcs = map (\<lambda>src. predict_on_face_crop V src imgsz conf iou) srcs"

text \<open>A whole-frame detection seen as a classification result.\<close>

definition det_result :: "det \<Rightarrow> int option \<times> real" where
  "det_result d = (Some (det_cls d), det_conf d)"

text \<open>The texts drawn on a frame, in drawing order.\<close>

fun drawn_labels :: "draw list \<Rightarrow> label list" where
  "drawn_labels [] = []"
| "drawn_labels (Rectangle x1 y1 x2 y2 col # ds) = drawn_labels ds"
| "drawn_labels (PutText lab x y col # ds) = lab # drawn_labels ds"

text \<open>The tracked pair is the earliest of the results \<open>rs\<close> seen so far with maximal
  confidence, or none with confidence 0 when no result exceeded 0.\<close>

definition dominance_inv :: "agg \<Rightarrow> (int option \<times> real) list \<Rightarrow> bool" where
  "dominance_inv st rs \<longleftrightarrow>
     0 \<le> dominant_conf st \<and>
     (\<forall>r \<in> set rs. snd r \<le> dominant_conf st) \<and>
     (dominant_emotion st = None \<longrightarrow> dominant_conf st = 0) \<and>
     (\<forall>n. dominant_emotion st = Some n \<longrightarrow>
        (\<exists>i < length rs. \<exists>c. rs ! i = (Some c, dominant_conf st) \<and> dominant_name c = Inr n \<and>
           (\<forall>j < i. snd (rs ! j) < dominant_conf st)))"

text \<open>What a step added to the trace.\<close>

definition events_since :: "world \<Rightarrow> world \<Rightarrow> event list" where
  "events_since w w' = drop (length (trace w)) (trace w')"

text \<open>\<^verbatim>\<open>d.get(k)\<close> on a device record.\<close>

definition dev_field :: "jval \<Rightarrow> string \<Rightarrow> jval" where
  "dev_field d k = (case py_get d k JNull of Inl e \<Rightarrow> JNull | Inr v \<Rightarrow> v)"

section \<open>Sample inputs\<close>

text \<open>A 640 by 480 camera frame with nothing drawn on it.\<close>

definition cam_frame :: frame where
  "cam_frame = \<lparr>height = 480, width = 640, pixels = 0, drawn = []\<rparr>"

text \<open>Two faces, classified happy with 0.9 and sad with 0.7.\<close>

definition two_faces :: vision where
  "two_faces =
     \<lparr>predict = (\<lambda>src imgsz conf iou.
          case src of
            Whole f \<Rightarrow> []
          | Crop f y1 y2 x1 x2 \<Rightarrow>
              [\<lparr>boxes = Some (if x1 < 200 then [(0, 0, 50, 50, 4, 9 / 10)]
                               else [(0, 0, 60, 60, 6, 7 / 10)])\<rparr>]),
      detectMultiScale = (\<lambda>f. [(100, 100, 50, 50), (300, 120, 60, 60)])\<rparr>"

text \<open>No face; the whole-frame call finds neutral 0.6, anger 0.8 and fear 0.8.\<close>

definition no_faces :: vision where
  "no_faces =
     \<lparr>predict = (\<lambda>src imgsz conf iou.
          case src of
            Whole f \<Rightarrow> [\<lparr>boxes = Some [(10, 10, 90, 90, 5, 6 / 10), (200, 40, 280, 120, 0, 8 / 10),
                                       (300, 40, 380, 120, 3, 8 / 10)]\<rparr>]
          | Crop f y1 y2 x1 x2 \<Rightarrow> []),
      detectMultiScale = (\<lambda>f. [])\<rparr>"

text \<open>One face, classified with the class id 8 that the enumeration does not have.\<close>

definition unknown_class :: vision where
  "unknown_class =
     \<lparr>predict = (\<lambda>src imgsz conf iou. [\<lparr>boxes = Some [(0, 0, 50, 50, 8, 9 / 10)]\<rparr>]),
      detectMultiScale = (\<lambda>f. [(100, 100, 50, 50)])\<rparr>"

text \<open>No face and no detection.\<close>

definition blank_view :: vision where
  "blank_view = \<lparr>predict = (\<lambda>src imgsz conf iou. []), detectMultiScale = (\<lambda>f. [])\<rparr>"

text \<open>Services with an empty device list, no OS handler and no shell, and a token endpoint
  that is out of reach; the clock reads 1000.\<close>

definition offline :: services where
  "offline =
     \<lparr>now = 1000,
      refresh_access_token = (\<lambda>rt. Inl (LibraryError ''offline'')),
      get_authorize_url = ''https://accounts.spotify.com/authorize'',
      pasted = ''http://localhost:8888/callback?code=abc'',
      parse_response_code = (\<lambda>r. Inr (Some ''abc'')),
      query_code = (\<lambda>r. Some ''abc''),
      get_access_token = (\<lambda>c. Inl (LibraryError ''offline'')),
      is_token_expired = (\<lambda>t. Inr False),
      sp_devices = (\<lambda>sp. Inr (JObj [(''devices'', JArr [])])),
      sp_start_playback = (\<lambda>sp d u. None),
      cache_write = Written,
      can_remove = True,
      startfile = (\<lambda>u. Some AttributeError),
      cmd_start = (\<lambda>u. Some (LibraryError ''cmd'')),
      webbrowser_open = (\<lambda>u. None)\<rparr>"

text \<open>A token record expiring at the given time.\<close>

definition token_until :: "int \<Rightarrow> jval" where
  "token_until e =
     JObj [(''access_token'', JStr ''A1''), (''refresh_token'', JStr ''R1''), (''expires_at'', JNum e)]"

text \<open>The record a successful refresh returns.\<close>

definition renewed :: jval where
  "renewed =
     JObj [(''access_token'', JStr ''A2''), (''refresh_token'', JStr ''R1''), (''expires_at'', JNum 4600)]"

text \<open>As \<open>offline\<close>, but the refresh call succeeds.\<close>

definition refreshing :: services where
  "refreshing = offline\<lparr>refresh_access_token := (\<lambda>rt. Inr renewed)\<rparr>"

text \<open>A device list whose second device is the active one.\<close>

definition two_devices :: jval where
  "two_devices =
     JObj [(''devices'',
       JArr [JObj [(''id'', JStr ''phone''), (''is_active'', JBool False)],
             JObj [(''id'', JStr ''laptop''), (''is_active'', JBool True)]])]"

section \<open>Verification\<close>

subsection \<open>Evaluation of the sample inputs\<close>

lemmas agg_eval = detect_and_draw_def detect_and_draw_traced_def cam_frame_def
      face_step_def det_step_def predict_on_face_crop_def read_results_def pad_of_def update_dominant_def
      dominant_name_def label_name_def face_label_def det_label_def draw_box_def py_index_def EMOTION_NAMES_def
      det_cls_def det_conf_def Let_def str_int_def str_nat.simps digit_char_def CONFIDENCE_def

subsection \<open>The dominance invariant of the two loops\<close>

lemma dominance_inv_init:
  "dominance_inv \<lparr>a_frame = fr, dominant_emotion = None, dominant_conf = 0, predict_calls = cs\<rparr> []"
  by (simp add: dominance_inv_def)

lemma dominance_inv_extend:
  assumes inv: "dominance_inv st rs" and le: "p \<le> dominant_conf st"
  shows "dominance_inv st (rs @ [(cid, p)])"
proof -
  have a: "0 \<le> dominant_conf st" and b: "\<forall>r \<in> set rs. snd r \<le> dominant_conf st"
    and c: "dominant_emotion st = None \<longrightarrow> dominant_conf st = 0"
    using inv by (simp_all add: dominance_inv_def)
  have d: "\<exists>i < length (rs @ [(cid, p)]). \<exists>c. (rs @ [(cid, p)]) ! i = (Some c, dominant_conf st) \<and>
             dominant_name c = Inr n \<and> (\<forall>j < i. snd ((rs @ [(cid, p)]) ! j) < dominant_conf st)"
    if n: "dominant_emotion st = Some n" for n
  proof -
    from inv n obtain i c where i: "i < length rs" and r: "rs ! i = (Some c, dominant_conf st)"
      and dn: "dominant_name c = Inr n" and lt: "\<forall>j < i. snd (rs ! j) < dominant_conf st"
      unfolding dominance_inv_def by blast
    have "\<forall>j < i. snd ((rs @ [(cid, p)]) ! j) < dominant_conf st"
      using lt i by (simp add: nth_append)
    moreover have "(rs @ [(cid, p)]) ! i = (Some c, dominant_conf st)"
      using r i by (simp add: nth_append)
    moreover have "i < length (rs @ [(cid, p)])" using i by simp
    ultimately show ?thesis using dn by blast
  qed
  have e: "\<forall>r \<in> set (rs @ [(cid, p)]). snd r \<le> dominant_conf st"
    using b le by auto
  show ?thesis
    unfolding dominance_inv_def using a c d e by blast
qed

lemma dominance_inv_replace:
  assumes inv: "dominance_inv st rs" and gt: "dominant_conf st < p"
    and dn: "dominant_name c = Inr n"
  shows "dominance_inv (st\<lparr>dominant_conf := p, dominant_emotion := Some n\<rparr>) (rs @ [(Some c, p)])"
proof -
  have a: "0 \<le> dominant_conf st" and b: "\<forall>r \<in> set rs. snd r \<le> dominant_conf st"
    using inv by (simp_all add: dominance_inv_def)
  have lt: "\<forall>j < length rs. snd ((rs @ [(Some c, p)]) ! j) < p"
  proof (intro allI impI)
    fix j assume j: "j < length rs"
    then have "snd (rs ! j) \<le> dominant_conf st" using b by simp
    then show "snd ((rs @ [(Some c, p)]) ! j) < p" using gt j by (simp add: nth_append)
  qed
  have le: "\<forall>r \<in> set (rs @ [(Some c, p)]). snd r \<le> p"
    using b gt by auto
  have ex: "\<exists>i < length (rs @ [(Some c, p)]). \<exists>c'. (rs @ [(Some c, p)]) ! i = (Some c', p) \<and>
              dominant_name c' = Inr n \<and> (\<forall>j < i. snd ((rs @ [(Some c, p)]) ! j) < p)"
    using lt dn by (intro exI[of _ "length rs"]) simp
  show ?thesis
    unfolding dominance_inv_def using a gt le ex by simp
qed

lemma update_dominant_inv:
  assumes upd: "update_dominant cid p st = Inr st'" and inv: "dominance_inv st rs"
    and none: "cid = None \<longrightarrow> p = 0"
  shows "dominance_inv st' (rs @ [(cid, p)])"
proof (cases cid)
  case None
  then have "st' = st" using upd by (simp add: update_dominant_def)
  moreover have "p \<le> dominant_conf st"
    using None none inv by (simp add: dominance_inv_def)
  ultimately show ?thesis using inv by (simp add: dominance_inv_extend)
next
  case (Some c)
  show ?thesis
  proof (cases "p > dominant_conf st")
    case False
    then have "st' = st" using upd Some by (simp add: update_dominant_def)
    then show ?thesis using inv False by (simp add: dominance_inv_extend)
  next
    case True
    with Some upd obtain n where n: "dominant_name c = Inr n"
      and st': "st' = st\<lparr>dominant_conf := p, dominant_emotion := Some n\<rparr>"
      by (auto simp: update_dominant_def split: sum.splits)
    show ?thesis unfolding st' Some using inv True n by (rule dominance_inv_replace)
  qed
qed

lemma update_dominant_frame:
  "update_dominant cid p st = Inr st' \<Longrightarrow> a_frame st' = a_frame st \<and> predict_calls st' = predict_calls st"
  by (auto simp: update_dominant_def split: option.splits if_splits sum.splits)

lemma dominance_inv_cong:
  "dominant_emotion st' = dominant_emotion st \<Longrightarrow> dominant_conf st' = dominant_conf st \<Longrightarrow>
   dominance_inv st' rs = dominance_inv st rs"
  by (simp add: dominance_inv_def)

lemma pofc_None: "predict_on_face_crop V src imgsz conf iou = (None, p) \<Longrightarrow> p = 0"
  by (auto simp: predict_on_face_crop_def Let_def split: list.splits)

lemma drawn_labels_append: "drawn_labels (xs @ ys) = drawn_labels xs @ drawn_labels ys"
  by (induction xs rule: drawn_labels.induct) simp_all

lemma max_by_conf_mem: "max_by_conf b ds \<in> set (b # ds)"
proof (induction ds arbitrary: b)
  case Nil
  show ?case by simp
next
  case (Cons d ds)
  have "max_by_conf (if det_conf d > det_conf b then d else b) ds
          \<in> set ((if det_conf d > det_conf b then d else b) # ds)"
    by (rule Cons.IH)
  then show ?case by (auto split: if_splits)
qed

lemma pofc_Some:
  assumes "predict_on_face_crop V src imgsz conf iou = (Some c, p)"
  shows "\<exists>d \<in> set (read_results (predict V src imgsz conf iou)). det_cls d = c \<and> det_conf d = p"
proof (cases "read_results (predict V src imgsz conf iou)")
  case Nil
  with assms show ?thesis by (simp add: predict_on_face_crop_def)
next
  case (Cons d ds)
  with assms have "det_cls (max_by_conf d ds) = c" "det_conf (max_by_conf d ds) = p"
    by (simp_all add: predict_on_face_crop_def Let_def)
  moreover have "max_by_conf d ds \<in> set (d # ds)" by (rule max_by_conf_mem)
  ultimately show ?thesis unfolding Cons by blast
qed

lemma py_index_names:
  assumes "- 8 \<le> c" and "c < 8"
  shows "\<exists>n. py_index EMOTION_NAMES c = Inr n"
  using assms by (simp add: py_index_def EMOTION_NAMES_def Let_def)

lemma dominant_name_total: "- 8 \<le> c \<Longrightarrow> \<exists>n. dominant_name c = Inr n"
  using py_index_names [of c] by (simp add: dominant_name_def EMOTION_NAMES_def)

lemma label_name_total: "- 8 \<le> c \<Longrightarrow> \<exists>n. label_name c = Inr n"
  using py_index_names [of c] by (simp add: label_name_def EMOTION_NAMES_def)

lemma update_dominant_total:
  assumes "\<forall>c. cid = Some c \<longrightarrow> - 8 \<le> c"
  shows "\<exists>st'. update_dominant cid p st = Inr st'"
proof (cases cid)
  case None
  then show ?thesis by (simp add: update_dominant_def)
next
  case (Some c)
  with assms obtain n where "dominant_name c = Inr n" using dominant_name_total by blast
  with Some show ?thesis by (simp add: update_dominant_def)
qed

lemma face_label_total:
  assumes "\<forall>c. cid = Some c \<longrightarrow> - 8 \<le> c"
  shows "\<exists>lab. face_label cid p = Inr lab"
proof (cases cid)
  case None
  then show ?thesis by (simp add: face_label_def)
next
  case (Some c)
  with assms obtain n where "label_name c = Inr n" using label_name_total by blast
  with Some show ?thesis by (simp add: face_label_def)
qed

lemma face_step_Inr:
  assumes "face_step V imgsz conf iou h w face st = Inr st'"
  shows "\<exists>crop st2 lab.
           predict_calls st' = predict_calls st @ [crop] \<and>
           update_dominant (fst (predict_on_face_crop V crop imgsz conf iou))
             (snd (predict_on_face_crop V crop imgsz conf iou))
             (st\<lparr>predict_calls := predict_calls st @ [crop]\<rparr>) = Inr st2 \<and>
           dominant_emotion st' = dominant_emotion st2 \<and> dominant_conf st' = dominant_conf st2 \<and>
           face_label (fst (predict_on_face_crop V crop imgsz conf iou))
             (snd (predict_on_face_crop V crop imgsz conf iou)) = Inr lab \<and>
           drawn_labels (drawn (a_frame st')) = drawn_labels (drawn (a_frame st)) @ [lab]"
proof -
  obtain x y fw fh where face: "face = (x, y, fw, fh)" by (cases face) auto
  define pad where "pad = pad_of (max fw fh)"
  define crop where "crop = Crop (a_frame st) (max 0 (y - pad)) (min h (y + fh + pad))
     (max 0 (x - pad)) (min w (x + fw + pad))"
  obtain cid p where pr: "predict_on_face_crop V crop imgsz conf iou = (cid, p)"
    by (cases "predict_on_face_crop V crop imgsz conf iou") auto
  from assms obtain st2 lab where
    u: "update_dominant cid p (st\<lparr>predict_calls := predict_calls st @ [crop]\<rparr>) = Inr st2"
    and l: "face_label cid p = Inr lab"
    and st': "st' = st2\<lparr>a_frame := draw_box (max 0 (x - pad)) (max 0 (y - pad))
        (min w (x + fw + pad)) (min h (y + fh + pad)) lab (0, 200, 0) (a_frame st2)\<rparr>"
    using pr unfolding face_step_def face crop_def pad_def
    by (simp add: Let_def split: sum.splits)
  have fr: "a_frame st2 = a_frame st" and pc: "predict_calls st2 = predict_calls st @ [crop]"
    using update_dominant_frame [OF u] by simp_all
  have "predict_calls st' = predict_calls st @ [crop]" using pc st' by simp
  moreover have "drawn_labels (drawn (a_frame st')) = drawn_labels (drawn (a_frame st)) @ [lab]"
    using st' fr by (simp add: draw_box_def drawn_labels_append)
  moreover have "dominant_emotion st' = dominant_emotion st2" "dominant_conf st' = dominant_conf st2"
    using st' by simp_all
  ultimately show ?thesis using u l pr by (intro exI[of _ crop] exI[of _ st2] exI[of _ lab]) simp
qed

lemma faces_loop_Inr:
  assumes "faces_loop V imgsz conf iou h w faces st = Inr st'"
    and "dominance_inv st (face_results V imgsz conf iou (predict_calls st))"
  shows "\<exists>crops labs.
           predict_calls st' = predict_calls st @ crops \<and> length crops = length faces \<and>
           drawn_labels (drawn (a_frame st')) = drawn_labels (drawn (a_frame st)) @ labs \<and>
           map Inr labs = map (\<lambda>r. face_label (fst r) (snd r)) (face_results V imgsz conf iou crops) \<and>
           dominance_inv st' (face_results V imgsz conf iou (predict_calls st'))"
  using assms
proof (induction faces arbitrary: st)
  case Nil
  then show ?case by (simp add: face_results_def)
next
  case (Cons face faces)
  from Cons.prems(1) obtain st1 where
    s1: "face_step V imgsz conf iou h w face st = Inr st1"
    and rest: "faces_loop V imgsz conf iou h w faces st1 = Inr st'"
    by (auto split: sum.splits)
  from face_step_Inr [OF s1] obtain crop st2 lab where
    pc: "predict_calls st1 = predict_calls st @ [crop]"
    and u: "update_dominant (fst (predict_on_face_crop V crop imgsz conf iou))
             (snd (predict_on_face_crop V crop imgsz conf iou))
             (st\<lparr>predict_calls := predict_calls st @ [crop]\<rparr>) = Inr st2"
    and de: "dominant_emotion st1 = dominant_emotion st2" and dc: "dominant_conf st1 = dominant_conf st2"
    and l: "face_label (fst (predict_on_face_crop V crop imgsz conf iou))
             (snd (predict_on_face_crop V crop imgsz conf iou)) = Inr lab"
    and dl: "drawn_labels (drawn (a_frame st1)) = drawn_labels (drawn (a_frame st)) @ [lab]"
    by blast
  define r where "r = predict_on_face_crop V crop imgsz conf iou"
  have none: "fst r = None \<longrightarrow> snd r = 0"
    using pofc_None [of V crop imgsz conf iou "snd r"] by (cases r) (simp add: r_def)
  have "dominance_inv (st\<lparr>predict_calls := predict_calls st @ [crop]\<rparr>)
          (face_results V imgsz conf iou (predict_calls st))"
    using Cons.prems(2) dominance_inv_cong [of "st\<lparr>predict_calls := predict_calls st @ [crop]\<rparr>" st] by simp
  then have "dominance_inv st2 (face_results V imgsz conf iou (predict_calls st) @ [(fst r, snd r)])"
    using update_dominant_inv [OF u [folded r_def] _ none] by simp
  then have inv1: "dominance_inv st1 (face_results V imgsz conf iou (predict_calls st1))"
    using dominance_inv_cong [OF de dc] by (simp add: pc face_results_def r_def)
  from Cons.IH [OF rest inv1] obtain crops labs where
    a: "predict_calls st' = predict_calls st1 @ crops" and b: "length crops = length faces"
    and c: "drawn_labels (drawn (a_frame st')) = drawn_labels (drawn (a_frame st1)) @ labs"
    and d: "map Inr labs = map (\<lambda>r. face_label (fst r) (snd r)) (face_results V imgsz conf iou crops)"
    and e: "dominance_inv st' (face_results V imgsz conf iou (predict_calls st'))"
    by blast
  show ?case
    using a b c d e pc dl l
    by (intro exI[of _ "crop # crops"] exI[of _ "lab # labs"]) (simp add: face_results_def)
qed

lemma face_step_total:
  assumes ids: "\<forall>src. \<forall>d \<in> set (read_results (predict V src imgsz conf iou)). - 8 \<le> det_cls d"
  shows "\<exists>st'. face_step V imgsz conf iou h w face st = Inr st'"
proof -
  obtain x y fw fh where face: "face = (x, y, fw, fh)" by (cases face) auto
  define pad where "pad = pad_of (max fw fh)"
  define crop where "crop = Crop (a_frame st) (max 0 (y - pad)) (min h (y + fh + pad))
     (max 0 (x - pad)) (min w (x + fw + pad))"
  obtain cid p where pr: "predict_on_face_crop V crop imgsz conf iou = (cid, p)"
    by (cases "predict_on_face_crop V crop imgsz conf iou") auto
  have ok: "\<forall>c. cid = Some c \<longrightarrow> - 8 \<le> c"
    using pofc_Some [of V crop imgsz conf iou _ p] pr ids by auto
  obtain st2 where u: "update_dominant cid p (st\<lparr>predict_calls := predict_calls st @ [crop]\<rparr>) = Inr st2"
    using update_dominant_total [OF ok] by blast
  obtain lab where l: "face_label cid p = Inr lab"
    using face_label_total [OF ok] by blast
  show ?thesis
    unfolding face_step_def face using pr u l
    by (simp add: Let_def crop_def pad_def)
qed

lemma faces_loop_total:
  assumes ids: "\<forall>src. \<forall>d \<in> set (read_results (predict V src imgsz conf iou)). - 8 \<le> det_cls d"
  shows "\<exists>st'. faces_loop V imgsz conf iou h w faces st = Inr st'"
proof (induction faces arbitrary: st)
  case Nil
  show ?case by simp
next
  case (Cons face faces)
  obtain st1 where "face_step V imgsz conf iou h w face st = Inr st1"
    using face_step_total [OF ids] by blast
  then show ?case using Cons.IH [of st1] by simp
qed

lemma det_step_Inr:
  assumes "det_step d st = Inr st'"
  shows "\<exists>st2 lab.
           predict_calls st' = predict_calls st \<and>
           update_dominant (Some (det_cls d)) (det_conf d) st = Inr st2 \<and>
           dominant_emotion st' = dominant_emotion st2 \<and> dominant_conf st' = dominant_conf st2 \<and>
           det_label (det_cls d) (det_conf d) = Inr lab \<and>
           drawn_labels (drawn (a_frame st')) = drawn_labels (drawn (a_frame st)) @ [lab]"
proof -
  obtain x1 y1 x2 y2 c p where d: "d = (x1, y1, x2, y2, c, p)" by (cases d) auto
  from assms obtain st2 lab where
    u: "update_dominant (Some c) p st = Inr st2"
    and l: "det_label c p = Inr lab"
    and st': "st' = st2\<lparr>a_frame := draw_box x1 y1 x2 y2 lab (255, 100, 0) (a_frame st2)\<rparr>"
    unfolding det_step_def d by (simp split: sum.splits)
  have fr: "a_frame st2 = a_frame st" and pc: "predict_calls st2 = predict_calls st"
    using update_dominant_frame [OF u] by simp_all
  have "drawn_labels (drawn (a_frame st')) = drawn_labels (drawn (a_frame st)) @ [lab]"
    using st' fr by (simp add: draw_box_def drawn_labels_append)
  then show ?thesis
    using u l pc st' by (intro exI[of _ st2] exI[of _ lab]) (simp add: d det_cls_def det_conf_def)
qed

lemma dets_loop_Inr:
  assumes "dets_loop ds st = Inr st'" and "dominance_inv st rs"
  shows "\<exists>labs.
           predict_calls st' = predict_calls st \<and>
           drawn_labels (drawn (a_frame st')) = drawn_labels (drawn (a_frame st)) @ labs \<and>
           map Inr labs = map (\<lambda>d. det_label (det_cls d) (det_conf d)) ds \<and>
           dominance_inv st' (rs @ map det_result ds)"
  using assms
proof (induction ds arbitrary: st rs)
  case Nil
  then show ?case by simp
next
  case (Cons d ds)
  from Cons.prems(1) obtain st1 where
    s1: "det_step d st = Inr st1" and rest: "dets_loop ds st1 = Inr st'"
    by (auto split: sum.splits)
  from det_step_Inr [OF s1] obtain st2 lab where
    pc: "predict_calls st1 = predict_calls st"
    and u: "update_dominant (Some (det_cls d)) (det_conf d) st = Inr st2"
    and de: "dominant_emotion st1 = dominant_emotion st2" and dc: "dominant_conf st1 = dominant_conf st2"
    and l: "det_label (det_cls d) (det_conf d) = Inr lab"
    and dl: "drawn_labels (drawn (a_frame st1)) = drawn_labels (drawn (a_frame st)) @ [lab]"
    by blast
  have "dominance_inv st2 (rs @ [(Some (det_cls d), det_conf d)])"
    using update_dominant_inv [OF u Cons.prems(2)] by simp
  then have inv1: "dominance_inv st1 (rs @ [det_result d])"
    using dominance_inv_cong [OF de dc] by (simp add: det_result_def)
  from Cons.IH [OF rest inv1] obtain labs where
    a: "predict_calls st' = predict_calls st1"
    and c: "drawn_labels (drawn (a_frame st')) = drawn_labels (drawn (a_frame st1)) @ labs"
    and m: "map Inr labs = map (\<lambda>d. det_label (det_cls d) (det_conf d)) ds"
    and e: "dominance_inv st' ((rs @ [det_result d]) @ map det_result ds)"
    by blast
  show ?case
    using a c m e pc dl l by (intro exI[of _ "lab # labs"]) simp
qed

lemma det_step_total:
  assumes "- 8 \<le> det_cls d"
  shows "\<exists>st'. det_step d st = Inr st'"
proof -
  obtain x1 y1 x2 y2 c p where d: "d = (x1, y1, x2, y2, c, p)" by (cases d) auto
  have c: "- 8 \<le> c" using assms by (simp add: d det_cls_def)
  then obtain st2 where u: "update_dominant (Some c) p st = Inr st2"
    using update_dominant_total [of "Some c" p st] by auto
  obtain n where "label_name c = Inr n" using label_name_total [OF c] by blast
  then show ?thesis unfolding det_step_def d using u by (simp add: det_label_def)
qed

lemma dets_loop_total:
  assumes "\<forall>d \<in> set ds. - 8 \<le> det_cls d"
  shows "\<exists>st'. dets_loop ds st = Inr st'"
  using assms
proof (induction ds arbitrary: st)
  case Nil
  show ?case by simp
next
  case (Cons d ds)
  then obtain st1 where "det_step d st = Inr st1" using det_step_total [of d st] by auto
  then show ?case using Cons.IH [of st1] Cons.prems by simp
qed

lemma detect_and_draw_traced_inv:
  assumes "detect_and_draw_traced V fr imgsz conf iou = Inr st"
  shows "\<exists>rs. dominance_inv st rs"
proof (cases "detectMultiScale V fr = []")
  case False
  define st0 where "st0 = \<lparr>a_frame = fr, dominant_emotion = None, dominant_conf = 0, predict_calls = []\<rparr>"
  have loop: "faces_loop V imgsz conf iou (height fr) (width fr) (detectMultiScale V fr) st0 = Inr st"
    using assms False by (simp add: detect_and_draw_traced_def Let_def st0_def)
  have "dominance_inv st0 (face_results V imgsz conf iou (predict_calls st0))"
    by (simp add: st0_def face_results_def dominance_inv_init)
  from faces_loop_Inr [OF loop this] show ?thesis by blast
next
  case True
  define st0 where "st0 = \<lparr>a_frame = fr, dominant_emotion = None, dominant_conf = 0, predict_calls = [Whole fr]\<rparr>"
  have loop: "dets_loop (read_results (predict V (Whole fr) imgsz conf iou)) st0 = Inr st"
    using assms True by (simp add: detect_and_draw_traced_def Let_def st0_def)
  have "dominance_inv st0 []" by (simp add: st0_def dominance_inv_init)
  from dets_loop_Inr [OF loop this] show ?thesis by blast
qed

subsection \<open>The dominant emotion of a frame\<close>

text \<open>
  Claim C1. When the face locator returns at least one rectangle, one classification is
  made per face, and the dominant emotion is the per-face result of strictly maximal
  confidence: no result has a greater confidence, every earlier result has a strictly
  smaller one (on a tie the earlier face stays), and the label is the name of that
  result's class. With no qualifying result the label is none and the confidence 0.
  The run returns whenever no class id is below -8.
\<close>

theorem faces_dominant_first_strict_maximum:
  assumes faces: "detectMultiScale V fr \<noteq> []"
  shows "(\<forall>st. detect_and_draw_traced V fr imgsz conf iou = Inr st \<longrightarrow>
            (let rs = map (\<lambda>src. predict_on_face_crop V src imgsz conf iou) (predict_calls st) in
               length rs = length (detectMultiScale V fr) \<and>
               (\<forall>r \<in> set rs. snd r \<le> dominant_conf st) \<and>
               (dominant_emotion st = None \<longrightarrow> dominant_conf st = 0) \<and>
               (\<forall>n. dominant_emotion st = Some n \<longrightarrow>
                  (\<exists>i < length rs. \<exists>c. rs ! i = (Some c, dominant_conf st) \<and>
                     dominant_name c = Inr n \<and> (\<forall>j < i. snd (rs ! j) < dominant_conf st)))))
       \<and> ((\<forall>src. \<forall>d \<in> set (read_results (predict V src imgsz conf iou)). - 8 \<le> det_cls d) \<longrightarrow>
            (\<exists>st. detect_and_draw_traced V fr imgsz conf iou = Inr st))"
proof (intro conjI allI impI)
  fix st
  assume run: "detect_and_draw_traced V fr imgsz conf iou = Inr st"
  define st0 where "st0 = \<lparr>a_frame = fr, dominant_emotion = None, dominant_conf = 0, predict_calls = []\<rparr>"
  have loop: "faces_loop V imgsz conf iou (height fr) (width fr) (detectMultiScale V fr) st0 = Inr st"
    using run faces by (simp add: detect_and_draw_traced_def Let_def st0_def)
  have "dominance_inv st0 (face_results V imgsz conf iou (predict_calls st0))"
    by (simp add: st0_def face_results_def dominance_inv_init)
  from faces_loop_Inr [OF loop this] obtain crops where
    pc: "predict_calls st = crops" and len: "length crops = length (detectMultiScale V fr)"
    and inv: "dominance_inv st (face_results V imgsz conf iou (predict_calls st))"
    by (auto simp: st0_def)
  show "let rs = map (\<lambda>src. predict_on_face_crop V src imgsz conf iou) (predict_calls st) in
               length rs = length (detectMultiScale V fr) \<and>
               (\<forall>r \<in> set rs. snd r \<le> dominant_conf st) \<and>
               (dominant_emotion st = None \<longrightarrow> dominant_conf st = 0) \<and>
               (\<forall>n. dominant_emotion st = Some n \<longrightarrow>
                  (\<exists>i < length rs. \<exists>c. rs ! i = (Some c, dominant_conf st) \<and>
                     dominant_name c = Inr n \<and> (\<forall>j < i. snd (rs ! j) < dominant_conf st)))"
    using inv pc len unfolding dominance_inv_def face_results_def Let_def by simp
next
  assume ids: "\<forall>src. \<forall>d \<in> set (read_results (predict V src imgsz conf iou)). - 8 \<le> det_cls d"
  show "\<exists>st. detect_and_draw_traced V fr imgsz conf iou = Inr st"
    using faces faces_loop_total [OF ids]
    by (simp add: detect_and_draw_traced_def Let_def)
qed

text \<open>
  Two faces with confidences 0.9 (happy) and 0.7 (sad): the first is dominant.
\<close>

theorem faces_dominant_first_strict_maximum_witness:
  "detectMultiScale two_faces cam_frame \<noteq> [] \<and>
   detect_and_draw two_faces cam_frame 640 CONFIDENCE (45 / 100) =
     Inr (\<lparr>height = 480, width = 640, pixels = 0, drawn =
       [Rectangle 93 93 157 157 (0, 200, 0), PutText (NameConf ''happy'' (9 / 10)) 93 85 (0, 200, 0),
        Rectangle 291 111 369 189 (0, 200, 0), PutText (NameConf ''sad'' (7 / 10)) 291 103 (0, 200, 0)]\<rparr>,
       Some ''happy'', 9 / 10)"
  using faces_dominant_first_strict_maximum [of two_faces cam_frame 640 CONFIDENCE "45 / 100"]
  by (simp add: agg_eval two_faces_def)

text \<open>
  Claim C2. When the face locator returns no rectangle, the classifier is run exactly
  once, on the whole frame; the dominant emotion is the first of its detections with
  maximal confidence, by the same strict rule; and with no detection the result is the
  unchanged frame, label none and confidence 0.
\<close>

theorem no_face_whole_frame_once:
  assumes nofaces: "detectMultiScale V fr = []"
  shows "(\<forall>st. detect_and_draw_traced V fr imgsz conf iou = Inr st \<longrightarrow>
            (let dets = read_results (predict V (Whole fr) imgsz conf iou) in
               predict_calls st = [Whole fr] \<and>
               (\<forall>d \<in> set dets. det_conf d \<le> dominant_conf st) \<and>
               (dominant_emotion st = None \<longrightarrow> dominant_conf st = 0) \<and>
               (\<forall>n. dominant_emotion st = Some n \<longrightarrow>
                  (\<exists>i < length dets. det_conf (dets ! i) = dominant_conf st \<and>
                     dominant_name (det_cls (dets ! i)) = Inr n \<and>
                     (\<forall>j < i. det_conf (dets ! j) < dominant_conf st)))))
       \<and> (read_results (predict V (Whole fr) imgsz conf iou) = [] \<longrightarrow>
            detect_and_draw V fr imgsz conf iou = Inr (fr, None, 0))
       \<and> ((\<forall>d \<in> set (read_results (predict V (Whole fr) imgsz conf iou)). - 8 \<le> det_cls d) \<longrightarrow>
            (\<exists>st. detect_and_draw_traced V fr imgsz conf iou = Inr st))"
proof (intro conjI allI impI)
  fix st
  assume run: "detect_and_draw_traced V fr imgsz conf iou = Inr st"
  define dets where "dets = read_results (predict V (Whole fr) imgsz conf iou)"
  define st0 where "st0 = \<lparr>a_frame = fr, dominant_emotion = None, dominant_conf = 0, predict_calls = [Whole fr]\<rparr>"
  have loop: "dets_loop dets st0 = Inr st"
    using run nofaces by (simp add: detect_and_draw_traced_def Let_def st0_def dets_def)
  have "dominance_inv st0 []" by (simp add: st0_def dominance_inv_init)
  from dets_loop_Inr [OF loop this] have
    pc: "predict_calls st = [Whole fr]" and inv: "dominance_inv st (map det_result dets)"
    by (auto simp: st0_def)
  have le: "\<forall>d \<in> set dets. det_conf d \<le> dominant_conf st"
    using inv by (simp add: dominance_inv_def det_result_def)
  have none: "dominant_emotion st = None \<longrightarrow> dominant_conf st = 0"
    using inv by (simp add: dominance_inv_def)
  have some: "\<exists>i < length dets. det_conf (dets ! i) = dominant_conf st \<and>
                     dominant_name (det_cls (dets ! i)) = Inr n \<and>
                     (\<forall>j < i. det_conf (dets ! j) < dominant_conf st)"
    if n: "dominant_emotion st = Some n" for n
  proof -
    from inv n obtain i c where i: "i < length dets"
      and r: "map det_result dets ! i = (Some c, dominant_conf st)"
      and dn: "dominant_name c = Inr n"
      and lt: "\<forall>j < i. snd (map det_result dets ! j) < dominant_conf st"
      unfolding dominance_inv_def by auto
    have "det_conf (dets ! i) = dominant_conf st" "det_cls (dets ! i) = c"
      using r i by (simp_all add: det_result_def)
    moreover have "\<forall>j < i. det_conf (dets ! j) < dominant_conf st"
      using lt i by (simp add: det_result_def)
    ultimately show ?thesis using i dn by blast
  qed
  show "let dets = read_results (predict V (Whole fr) imgsz conf iou) in
               predict_calls st = [Whole fr] \<and>
               (\<forall>d \<in> set dets. det_conf d \<le> dominant_conf st) \<and>
               (dominant_emotion st = None \<longrightarrow> dominant_conf st = 0) \<and>
               (\<forall>n. dominant_emotion st = Some n \<longrightarrow>
                  (\<exists>i < length dets. det_conf (dets ! i) = dominant_conf st \<and>
                     dominant_name (det_cls (dets ! i)) = Inr n \<and>
                     (\<forall>j < i. det_conf (dets ! j) < dominant_conf st)))"
    using pc le none some unfolding Let_def dets_def [symmetric] by blast
next
  assume "read_results (predict V (Whole fr) imgsz conf iou) = []"
  then show "detect_and_draw V fr imgsz conf iou = Inr (fr, None, 0)"
    using nofaces by (simp add: detect_and_draw_def detect_and_draw_traced_def Let_def)
next
  assume "\<forall>d \<in> set (read_results (predict V (Whole fr) imgsz conf iou)). - 8 \<le> det_cls d"
  then show "\<exists>st. detect_and_draw_traced V fr imgsz conf iou = Inr st"
    using nofaces dets_loop_total by (simp add: detect_and_draw_traced_def Let_def)
qed

text \<open>
  No face, three whole-frame detections 0.6, 0.8, 0.8: the first 0.8 is dominant.
\<close>

theorem no_face_whole_frame_once_witness:
  "detectMultiScale no_faces cam_frame = [] \<and>
   detect_and_draw no_faces cam_frame 640 CONFIDENCE (45 / 100) =
     Inr (\<lparr>height = 480, width = 640, pixels = 0, drawn =
     [Rectangle 10 10 90 90 (255, 100, 0), PutText (NameConf ''neutral'' (6 / 10)) 10 2 (255, 100, 0),
      Rectangle 200 40 280 120 (255, 100, 0), PutText (NameConf ''anger'' (8 / 10)) 200 32 (255, 100, 0),
      Rectangle 300 40 380 120 (255, 100, 0), PutText (NameConf ''fear'' (8 / 10)) 300 32 (255, 100, 0)]\<rparr>,
     Some ''anger'', 8 / 10)"
  using no_face_whole_frame_once [of no_faces cam_frame 640 CONFIDENCE "45 / 100"]
  by (simp add: agg_eval no_faces_def)

subsection \<open>Class ids outside the enumeration\<close>

lemma names_nonneg:
  assumes "0 \<le> c"
  shows "dominant_name c = Inr (if c < 8 then EMOTION_NAMES ! nat c else str_int c)"
    and "label_name c = Inr (if c < 8 then EMOTION_NAMES ! nat c else ''...'')"
  using assms by (simp_all add: dominant_name_def label_name_def py_index_def EMOTION_NAMES_def Let_def)

lemma face_label_nonneg:
  assumes "\<forall>c. fst r = Some c \<longrightarrow> 0 \<le> c"
  shows "face_label (fst r) (snd r) =
           Inr (case r of (cid, p) \<Rightarrow> (case cid of None \<Rightarrow> Dots
              | Some c \<Rightarrow> NameConf (if c < 8 then EMOTION_NAMES ! nat c else ''...'') p))"
proof (cases r)
  case (Pair cid p)
  show ?thesis
  proof (cases cid)
    case None
    with Pair show ?thesis by (simp add: face_label_def)
  next
    case (Some c)
    with Pair assms have "0 \<le> c" by simp
    then show ?thesis using Pair Some by (simp add: face_label_def names_nonneg(2))
  qed
qed

lemma map_Inr_eq: "map Inr xs = map f ys \<Longrightarrow> \<forall>y \<in> set ys. f y = Inr (g y) \<Longrightarrow> xs = map g ys"
proof (induction ys arbitrary: xs)
  case Nil
  then show ?case by simp
next
  case (Cons y ys)
  then obtain x xs' where "xs = x # xs'" by (cases xs) auto
  with Cons show ?case by auto
qed

text \<open>
  Claim C3, amended. For class ids from 0 up the aggregator does not raise. An id
  of 8 or more is the dominant label as its decimal string, but in the drawn annotation
  it appears as the placeholder dots followed by the confidence; ids 0 to 7
  appear as the enumeration name in both. A face with no detection is annotated with
  the bare dots.
\<close>

theorem class_id_rendering:
  assumes ids: "\<forall>src. \<forall>d \<in> set (read_results (predict V src imgsz conf iou)). 0 \<le> det_cls d"
  shows "\<exists>st. detect_and_draw_traced V fr imgsz conf iou = Inr st \<and>
           (\<forall>n. dominant_emotion st = Some n \<longrightarrow>
              (\<exists>c. (Some c, dominant_conf st) \<in> set (classified V fr imgsz conf iou st) \<and>
                   n = (if c < 8 then EMOTION_NAMES ! nat c else str_int c))) \<and>
           drawn_labels (drawn (a_frame st)) =
             drawn_labels (drawn fr) @
             map (\<lambda>(cid, p). case cid of None \<Rightarrow> Dots
                    | Some c \<Rightarrow> NameConf (if c < 8 then EMOTION_NAMES ! nat c else ''...'') p)
               (classified V fr imgsz conf iou st)"
proof -
  let ?ann = "\<lambda>(cid, p). case cid of None \<Rightarrow> Dots
                    | Some c \<Rightarrow> NameConf (if c < 8 then EMOTION_NAMES ! nat c else ''...'') p"
  have ids8: "\<forall>src. \<forall>d \<in> set (read_results (predict V src imgsz conf iou)). - 8 \<le> det_cls d"
    using ids by fastforce
  have dom: "\<exists>c. (Some c, dominant_conf st) \<in> set rs \<and> n = (if c < 8 then EMOTION_NAMES ! nat c else str_int c)"
    if inv: "dominance_inv st rs" and ok: "\<forall>r \<in> set rs. \<forall>c. fst r = Some c \<longrightarrow> 0 \<le> c"
      and n: "dominant_emotion st = Some n" for st rs n
  proof -
    from inv n obtain i c where i: "i < length rs" and r: "rs ! i = (Some c, dominant_conf st)"
      and dn: "dominant_name c = Inr n"
      unfolding dominance_inv_def by blast
    have mem: "(Some c, dominant_conf st) \<in> set rs" using i r by (metis nth_mem)
    then have "0 \<le> c" using ok by fastforce
    then have "n = (if c < 8 then EMOTION_NAMES ! nat c else str_int c)"
      using dn names_nonneg(1) [of c] by simp
    with mem show ?thesis by blast
  qed
  show ?thesis
  proof (cases "detectMultiScale V fr = []")
    case False
    define st0 where "st0 = \<lparr>a_frame = fr, dominant_emotion = None, dominant_conf = 0, predict_calls = []\<rparr>"
    obtain st where loop: "faces_loop V imgsz conf iou (height fr) (width fr) (detectMultiScale V fr) st0 = Inr st"
      using faces_loop_total [OF ids8] by blast
    then have run: "detect_and_draw_traced V fr imgsz conf iou = Inr st"
      using False by (simp add: detect_and_draw_traced_def Let_def st0_def)
    have "dominance_inv st0 (face_results V imgsz conf iou (predict_calls st0))"
      by (simp add: st0_def face_results_def dominance_inv_init)
    from faces_loop_Inr [OF loop this] obtain labs where
      dl: "drawn_labels (drawn (a_frame st)) = drawn_labels (drawn fr) @ labs"
      and m: "map Inr labs = map (\<lambda>r. face_label (fst r) (snd r)) (face_results V imgsz conf iou (predict_calls st))"
      and inv: "dominance_inv st (face_results V imgsz conf iou (predict_calls st))"
      by (auto simp: st0_def)
    have cl: "classified V fr imgsz conf iou st = face_results V imgsz conf iou (predict_calls st)"
      using False by (simp add: classified_def face_results_def)
    have ok: "\<forall>r \<in> set (face_results V imgsz conf iou (predict_calls st)). \<forall>c. fst r = Some c \<longrightarrow> 0 \<le> c"
    proof (intro ballI allI impI)
      fix r c assume "r \<in> set (face_results V imgsz conf iou (predict_calls st))" and c: "fst r = Some c"
      then obtain src where "r = predict_on_face_crop V src imgsz conf iou"
        by (auto simp: face_results_def)
      then have "predict_on_face_crop V src imgsz conf iou = (Some c, snd r)"
        using c by (metis prod.collapse)
      from pofc_Some [OF this] show "0 \<le> c" using ids by auto
    qed
    have "labs = map ?ann (face_results V imgsz conf iou (predict_calls st))"
    proof (rule map_Inr_eq [OF m], rule ballI)
      fix r assume "r \<in> set (face_results V imgsz conf iou (predict_calls st))"
      then have "\<forall>c. fst r = Some c \<longrightarrow> 0 \<le> c" using ok by blast
      from face_label_nonneg [OF this] show "face_label (fst r) (snd r) = Inr (?ann r)" .
    qed
    then have labels: "drawn_labels (drawn (a_frame st)) =
        drawn_labels (drawn fr) @ map ?ann (classified V fr imgsz conf iou st)"
      using dl by (simp add: cl)
    have "\<exists>c. (Some c, dominant_conf st) \<in> set (classified V fr imgsz conf iou st) \<and>
                   n = (if c < 8 then EMOTION_NAMES ! nat c else str_int c)"
      if "dominant_emotion st = Some n" for n
      using dom [OF inv ok that] by (simp add: cl)
    with run labels show ?thesis by blast
  next
    case True
    define dets where "dets = read_results (predict V (Whole fr) imgsz conf iou)"
    define st0 where "st0 = \<lparr>a_frame = fr, dominant_emotion = None, dominant_conf = 0, predict_calls = [Whole fr]\<rparr>"
    have "\<forall>d \<in> set dets. - 8 \<le> det_cls d" using ids8 by (simp add: dets_def)
    then obtain st where loop: "dets_loop dets st0 = Inr st"
      using dets_loop_total by blast
    then have run: "detect_and_draw_traced V fr imgsz conf iou = Inr st"
      using True by (simp add: detect_and_draw_traced_def Let_def st0_def dets_def)
    have "dominance_inv st0 []" by (simp add: st0_def dominance_inv_init)
    from dets_loop_Inr [OF loop this] obtain labs where
      dl: "drawn_labels (drawn (a_frame st)) = drawn_labels (drawn fr) @ labs"
      and m: "map Inr labs = map (\<lambda>d. det_label (det_cls d) (det_conf d)) dets"
      and inv: "dominance_inv st (map det_result dets)"
      by (auto simp: st0_def)
    have cl: "classified V fr imgsz conf iou st = map det_result dets"
      using True by (simp add: classified_def dets_def det_result_def)
    have nn: "\<forall>d \<in> set dets. 0 \<le> det_cls d" using ids by (simp add: dets_def)
    then have ok: "\<forall>r \<in> set (map det_result dets). \<forall>c. fst r = Some c \<longrightarrow> 0 \<le> c"
      by (auto simp: det_result_def)
    have "labs = map (\<lambda>d. ?ann (det_result d)) dets"
    proof (rule map_Inr_eq [OF m], rule ballI)
      fix d assume "d \<in> set dets"
      then have "0 \<le> det_cls d" using nn by blast
      then show "det_label (det_cls d) (det_conf d) = Inr (?ann (det_result d))"
        by (simp add: det_label_def det_result_def names_nonneg(2))
    qed
    then have "labs = map ?ann (map det_result dets)" by (simp add: comp_def)
    then have labels: "drawn_labels (drawn (a_frame st)) =
        drawn_labels (drawn fr) @ map ?ann (classified V fr imgsz conf iou st)"
      using dl by (simp add: cl)
    have "\<exists>c. (Some c, dominant_conf st) \<in> set (classified V fr imgsz conf iou st) \<and>
                   n = (if c < 8 then EMOTION_NAMES ! nat c else str_int c)"
      if "dominant_emotion st = Some n" for n
      using dom [OF inv ok that] by (simp add: cl)
    with run labels show ?thesis by blast
  qed
qed

text \<open>
  One face classified with class id 8: dominant label 8, annotation dots.
\<close>

theorem class_id_rendering_witness:
  "detect_and_draw unknown_class cam_frame 640 CONFIDENCE (45 / 100) =
     Inr (\<lparr>height = 480, width = 640, pixels = 0, drawn =
       [Rectangle 93 93 157 157 (0, 200, 0), PutText (NameConf ''...'' (9 / 10)) 93 85 (0, 200, 0)]\<rparr>,
       Some ''8'', 9 / 10)"
  using class_id_rendering [of unknown_class 640 CONFIDENCE "45 / 100" cam_frame]
  by (simp add: agg_eval unknown_class_def)

text \<open>
  Claim C3 as stated fails: the drawn annotation of an out-of-range id is not its
  numeric string.
\<close>

theorem annotation_not_numeric_counterexample:
  "\<not> (\<forall>V fr imgsz conf iou st c p.
        detect_and_draw_traced V fr imgsz conf iou = Inr st \<longrightarrow>
        (Some c, p) \<in> set (classified V fr imgsz conf iou st) \<longrightarrow> 8 \<le> c \<longrightarrow>
        NameConf (str_int c) p \<in> set (drawn_labels (drawn (a_frame st))))"
proof
  assume a: "\<forall>V fr imgsz conf iou st c p.
        detect_and_draw_traced V fr imgsz conf iou = Inr st \<longrightarrow>
        (Some c, p) \<in> set (classified V fr imgsz conf iou st) \<longrightarrow> 8 \<le> c \<longrightarrow>
        NameConf (str_int c) p \<in> set (drawn_labels (drawn (a_frame st)))"
  define st where "st = \<lparr>a_frame = \<lparr>height = 480, width = 640, pixels = 0, drawn =
       [Rectangle 93 93 157 157 (0, 200, 0), PutText (NameConf ''...'' (9 / 10)) 93 85 (0, 200, 0)]\<rparr>,
       dominant_emotion = Some ''8'', dominant_conf = 9 / 10,
       predict_calls = [Crop cam_frame 93 157 93 157]\<rparr>"
  have run: "detect_and_draw_traced unknown_class cam_frame 640 CONFIDENCE (45 / 100) = Inr st"
    by (simp add: agg_eval unknown_class_def st_def)
  have cl: "(Some 8, 9 / 10) \<in> set (classified unknown_class cam_frame 640 CONFIDENCE (45 / 100) st)"
    by (simp add: classified_def agg_eval unknown_class_def st_def)
  from a run cl have "NameConf (str_int 8) (9 / 10) \<in> set (drawn_labels (drawn (a_frame st)))"
    by blast
  then show False by (simp add: st_def str_int_def str_nat.simps digit_char_def)
qed

subsection \<open>The credential cache\<close>

text \<open>
  Claim C4. A cached token record whose \<^verbatim>\<open>expires_at\<close> is at least 60 seconds ahead is
  returned as it is, and the world is unchanged: no refresh call, no interactive
  authorization and no write to the cache file appear in the trace.
\<close>

theorem fresh_cache_returned_unchanged:
  assumes "cache_file w = Stored (JObj kvs)"
    and "map_of kvs ''expires_at'' = Some (JNum e)"
    and "60 \<le> e - now S"
    and "map_of kvs ''access_token'' = Some tok"
  shows "ensure_spotify_client S w = (Inr (tok, JObj kvs), w)"
proof -
  have ne: "kvs \<noteq> []" using assms(2) by auto
  have "read_cache w = (JObj kvs, w)" using assms(1) by (simp add: read_cache_def)
  moreover have "check_cached S (JObj kvs) w = (Inr (JObj kvs), w)"
    using ne assms(2,3) by (simp add: check_cached_def)
  ultimately show ?thesis using ne assms(4) by (simp add: ensure_spotify_client_def finish_client_def)
qed

text \<open>
  A record that expires 3600 seconds from now.
\<close>

theorem fresh_cache_returned_unchanged_witness:
  "60 \<le> 4600 - now offline \<and>
   ensure_spotify_client offline \<lparr>cache_file = Stored (token_until 4600), trace = []\<rparr> =
     (Inr (JStr ''A1'', token_until 4600), \<lparr>cache_file = Stored (token_until 4600), trace = []\<rparr>)"
  using fresh_cache_returned_unchanged [of "\<lparr>cache_file = Stored (token_until 4600), trace = []\<rparr>"
      "[(''access_token'', JStr ''A1''), (''refresh_token'', JStr ''R1''), (''expires_at'', JNum 4600)]"
      4600 offline "JStr ''A1''"]
  by (simp add: token_until_def offline_def)

lemma ensure_absent:
  assumes "cache_file w = Absent"
  shows "ensure_spotify_client S w = finish_client S JNull w"
  using assms by (simp add: ensure_spotify_client_def read_cache_def check_cached_def)

lemma finish_client_None:
  "finish_client S JNull w =
     (case run_interactive_auth S w of
        (Inl e, w2) \<Rightarrow> (Inl e, w2)
      | (Inr t, w2) \<Rightarrow>
          (case py_item t ''access_token'' of
             Inl e \<Rightarrow> (Inl e, w2)
           | Inr tok \<Rightarrow> (Inr (tok, t), w2)))"
  by (simp add: finish_client_def)

lemma py_item_truthy: "py_item v k = Inr x \<Longrightarrow> truthy v"
  by (cases v) (auto split: option.splits)

lemma run_interactive_auth_persists:
  assumes "run_interactive_auth S w0 = (Inr t, w2)"
  shows "\<exists>w1. w2 = write_cache S t w1"
  using assms
  by (auto simp: run_interactive_auth_def Let_def split: option.splits sum.splits)

lemma write_cache_file: "cache_write S = Written \<Longrightarrow> cache_file (write_cache S t w) = Stored t"
  by (simp add: write_cache_def emit_def)

lemma write_cache_trace:
  "trace (write_cache S t w) =
     trace w @ WriteCache t #
       (if cache_write S = Written then [] else [Print ''Failed writing token cache:''])"
  by (cases "cache_write S") (simp_all add: write_cache_def emit_def)

text \<open>
  Claim C5, amended. For a cached record less than 60 seconds from expiry: with a
  refresh token, exactly one refresh call is made, and on its success the new record is
  written to the cache file and returned; without a refresh token, or when the refresh
  call raises, the interactive flow is run, and its result is written to the cache file
  and returned. The file holds the record whenever the write succeeds. A write that
  fails is printed and ignored, and the record is still returned.
\<close>

theorem near_expiry_refresh_else_interactive:
  assumes cached: "cache_file w = Stored (JObj kvs)"
    and expiry: "map_of kvs ''expires_at'' = Some (JNum e)"
    and near: "e - now S < 60"
  shows "(\<forall>rt new tok.
            map_of kvs ''refresh_token'' = Some rt \<and> truthy rt \<and>
            refresh_access_token S rt = Inr new \<and> py_item new ''access_token'' = Inr tok \<longrightarrow>
            ensure_spotify_client S w = (Inr (tok, new), write_cache S new (emit [Refresh rt] w)) \<and>
            events_since w (snd (ensure_spotify_client S w)) =
              Refresh rt # WriteCache new #
                (if cache_write S = Written then [] else [Print ''Failed writing token cache:'']) \<and>
            (cache_write S = Written \<longrightarrow>
               cache_file (snd (ensure_spotify_client S w)) = Stored new))
       \<and> (\<forall>w0.
            (w0 = w \<and> (case map_of kvs ''refresh_token'' of None \<Rightarrow> True | Some rt \<Rightarrow> \<not> truthy rt)) \<or>
            (\<exists>rt err. map_of kvs ''refresh_token'' = Some rt \<and> truthy rt \<and>
                 refresh_access_token S rt = Inl err \<and>
                 w0 = emit [Refresh rt, Print ''Refresh failed:''] w) \<longrightarrow>
            ensure_spotify_client S w =
              (case run_interactive_auth S w0 of
                 (Inl err, w2) \<Rightarrow> (Inl err, w2)
               | (Inr t, w2) \<Rightarrow>
                   (case py_item t ''access_token'' of
                      Inl err \<Rightarrow> (Inl err, w2)
                    | Inr tok \<Rightarrow> (Inr (tok, t), w2))))
       \<and> (\<forall>w0 t w2.
            run_interactive_auth S w0 = (Inr t, w2) \<longrightarrow>
            (\<exists>w1. w2 = write_cache S t w1) \<and>
            (cache_write S = Written \<longrightarrow> cache_file w2 = Stored t))"
proof (intro conjI allI impI)
  have ne: "kvs \<noteq> []" using expiry by auto
  have rd: "read_cache w = (JObj kvs, w)" using cached by (simp add: read_cache_def)
  {
    fix rt new tok
    assume h: "map_of kvs ''refresh_token'' = Some rt \<and> truthy rt \<and>
            refresh_access_token S rt = Inr new \<and> py_item new ''access_token'' = Inr tok"
    have chk: "check_cached S (JObj kvs) w = (Inr new, write_cache S new (emit [Refresh rt] w))"
      using ne expiry near h by (simp add: check_cached_def)
    have tr: "truthy new" using h py_item_truthy by blast
    show run: "ensure_spotify_client S w = (Inr (tok, new), write_cache S new (emit [Refresh rt] w))"
      using rd chk tr h by (simp add: ensure_spotify_client_def finish_client_def)
    show "events_since w (snd (ensure_spotify_client S w)) =
              Refresh rt # WriteCache new #
                (if cache_write S = Written then [] else [Print ''Failed writing token cache:''])"
      unfolding run by (simp add: write_cache_trace emit_def events_since_def)
    assume "cache_write S = Written"
    then show "cache_file (snd (ensure_spotify_client S w)) = Stored new"
      unfolding run by (simp add: write_cache_file)
  }
  {
    fix w0
    assume h: "(w0 = w \<and> (case map_of kvs ''refresh_token'' of None \<Rightarrow> True | Some rt \<Rightarrow> \<not> truthy rt)) \<or>
            (\<exists>rt err. map_of kvs ''refresh_token'' = Some rt \<and> truthy rt \<and>
                 refresh_access_token S rt = Inl err \<and>
                 w0 = emit [Refresh rt, Print ''Refresh failed:''] w)"
    have chk: "check_cached S (JObj kvs) w = (Inr JNull, w0)"
      using h ne expiry near
      by (auto simp: check_cached_def split: option.splits)
    show "ensure_spotify_client S w =
              (case run_interactive_auth S w0 of
                 (Inl err, w2) \<Rightarrow> (Inl err, w2)
               | (Inr t, w2) \<Rightarrow>
                   (case py_item t ''access_token'' of
                      Inl err \<Rightarrow> (Inl err, w2)
                    | Inr tok \<Rightarrow> (Inr (tok, t), w2)))"
      using rd chk by (simp add: ensure_spotify_client_def finish_client_None)
  }
  {
    fix w0 t w2
    assume r: "run_interactive_auth S w0 = (Inr t, w2)"
    from run_interactive_auth_persists [OF r]
    show p: "\<exists>w1. w2 = write_cache S t w1" .
    assume "cache_write S = Written"
    with p show "cache_file w2 = Stored t" using write_cache_file by blast
  }
qed

text \<open>
  A record 10 seconds from expiry with a refresh token; the refresh succeeds.
\<close>

theorem near_expiry_refresh_else_interactive_witness:
  "1010 - now refreshing < 60 \<and>
   ensure_spotify_client refreshing \<lparr>cache_file = Stored (token_until 1010), trace = []\<rparr> =
     (Inr (JStr ''A2'', renewed),
      \<lparr>cache_file = Stored renewed, trace = [Refresh (JStr ''R1''), WriteCache renewed]\<rparr>)"
  using near_expiry_refresh_else_interactive [of "\<lparr>cache_file = Stored (token_until 1010), trace = []\<rparr>"
      "[(''access_token'', JStr ''A1''), (''refresh_token'', JStr ''R1''), (''expires_at'', JNum 1010)]"
      1010 refreshing]
  by (simp add: token_until_def refreshing_def offline_def renewed_def ensure_spotify_client_def
      finish_client_def read_cache_def check_cached_def write_cache_def emit_def)

text \<open>
  Claim C5 as stated fails: when the cache file cannot be opened for writing, the
  refreshed record is returned but not persisted.
\<close>

theorem refreshed_record_not_persisted_counterexample:
  "\<not> (\<forall>S w kvs e rt new tok.
        cache_file w = Stored (JObj kvs) \<longrightarrow> map_of kvs ''expires_at'' = Some (JNum e) \<longrightarrow>
        e - now S < 60 \<longrightarrow> map_of kvs ''refresh_token'' = Some rt \<longrightarrow> truthy rt \<longrightarrow>
        refresh_access_token S rt = Inr new \<longrightarrow> py_item new ''access_token'' = Inr tok \<longrightarrow>
        cache_file (snd (ensure_spotify_client S w)) = Stored new)"
proof
  assume a: "\<forall>S w kvs e rt new tok.
        cache_file w = Stored (JObj kvs) \<longrightarrow> map_of kvs ''expires_at'' = Some (JNum e) \<longrightarrow>
        e - now S < 60 \<longrightarrow> map_of kvs ''refresh_token'' = Some rt \<longrightarrow> truthy rt \<longrightarrow>
        refresh_access_token S rt = Inr new \<longrightarrow> py_item new ''access_token'' = Inr tok \<longrightarrow>
        cache_file (snd (ensure_spotify_client S w)) = Stored new"
  define S where "S = refreshing\<lparr>cache_write := OpenFails\<rparr>"
  define w where "w = \<lparr>cache_file = Stored (token_until 1010), trace = []\<rparr>"
  define kvs where "kvs = [(''access_token'', JStr ''A1''), (''refresh_token'', JStr ''R1''), (''expires_at'', JNum 1010)]"
  have 1: "cache_file w = Stored (JObj kvs)" by (simp add: w_def kvs_def token_until_def)
  have 2: "map_of kvs ''expires_at'' = Some (JNum 1010)" by (simp add: kvs_def)
  have 3: "1010 - now S < 60" by (simp add: S_def refreshing_def offline_def)
  have 4: "map_of kvs ''refresh_token'' = Some (JStr ''R1'')" by (simp add: kvs_def)
  have 5: "truthy (JStr ''R1'')" by simp
  have 6: "refresh_access_token S (JStr ''R1'') = Inr renewed" by (simp add: S_def refreshing_def)
  have 7: "py_item renewed ''access_token'' = Inr (JStr ''A2'')" by (simp add: renewed_def)
  from a 1 2 3 4 5 6 7 have "cache_file (snd (ensure_spotify_client S w)) = Stored renewed"
    by blast
  moreover have "cache_file (snd (ensure_spotify_client S w)) = Stored (token_until 1010)"
    by (simp add: S_def w_def token_until_def refreshing_def offline_def renewed_def
        ensure_spotify_client_def finish_client_def read_cache_def check_cached_def write_cache_def emit_def)
  ultimately show False by (simp add: renewed_def token_until_def)
qed

text \<open>
  Claim C8, amended. \<^verbatim>\<open>force_reauth\<close> does nothing when the cache file is absent and never
  raises. When the file is there it calls \<^verbatim>\<open>os.remove\<close>: if the removal succeeds the file
  is gone, a second call changes nothing more, and the next \<^verbatim>\<open>ensure_spotify_client\<close>
  runs the interactive authorization; if the removal fails the failure is printed and
  the file stays. Its only events are the removal and one message: it starts no
  authorization itself.
\<close>

theorem force_reauth_clears_cache:
  "(cache_file w = Absent \<longrightarrow> force_reauth S w = w) \<and>
   (can_remove S \<longrightarrow>
      cache_file (force_reauth S w) = Absent \<and>
      force_reauth S (force_reauth S w) = force_reauth S w \<and>
      ensure_spotify_client S (force_reauth S w) =
        (case run_interactive_auth S (force_reauth S w) of
           (Inl e, w2) \<Rightarrow> (Inl e, w2)
         | (Inr t, w2) \<Rightarrow>
             (case py_item t ''access_token'' of
                Inl e \<Rightarrow> (Inl e, w2)
              | Inr tok \<Rightarrow> (Inr (tok, t), w2)))) \<and>
   (\<not> can_remove S \<longrightarrow> cache_file (force_reauth S w) = cache_file w) \<and>
   (\<not> can_remove S \<and> cache_file w \<noteq> Absent \<longrightarrow>
      events_since w (force_reauth S w) = [RemoveCache, Print ''Failed to delete cache:'']) \<and>
   set (events_since w (force_reauth S w))
     \<subseteq> {RemoveCache, Print ''Deleted cache:'', Print ''Failed to delete cache:''}"
proof (intro conjI impI)
  assume "cache_file w = Absent"
  then show "force_reauth S w = w" by (simp add: force_reauth_def)
next
  assume r: "can_remove S"
  then show a: "cache_file (force_reauth S w) = Absent"
    by (simp add: force_reauth_def emit_def)
  then show "force_reauth S (force_reauth S w) = force_reauth S w"
    by (simp add: force_reauth_def [of S "force_reauth S w"])
  show "ensure_spotify_client S (force_reauth S w) =
        (case run_interactive_auth S (force_reauth S w) of
           (Inl e, w2) \<Rightarrow> (Inl e, w2)
         | (Inr t, w2) \<Rightarrow>
             (case py_item t ''access_token'' of
                Inl e \<Rightarrow> (Inl e, w2)
              | Inr tok \<Rightarrow> (Inr (tok, t), w2)))"
    using ensure_absent [OF a] by (simp add: finish_client_None)
next
  assume "\<not> can_remove S"
  then show "cache_file (force_reauth S w) = cache_file w"
    by (simp add: force_reauth_def emit_def)
next
  assume "\<not> can_remove S \<and> cache_file w \<noteq> Absent"
  then show "events_since w (force_reauth S w) = [RemoveCache, Print ''Failed to delete cache:'']"
    by (simp add: force_reauth_def emit_def events_since_def)
next
  show "set (events_since w (force_reauth S w))
     \<subseteq> {RemoveCache, Print ''Deleted cache:'', Print ''Failed to delete cache:''}"
    by (simp add: force_reauth_def emit_def events_since_def)
qed

text \<open>
  A stored record that can be removed, and the call on a missing file.
\<close>

theorem force_reauth_clears_cache_witness:
  "can_remove offline \<and>
   force_reauth offline \<lparr>cache_file = Stored (token_until 4600), trace = []\<rparr> =
     \<lparr>cache_file = Absent, trace = [RemoveCache, Print ''Deleted cache:'']\<rparr> \<and>
   force_reauth offline \<lparr>cache_file = Absent, trace = []\<rparr> = \<lparr>cache_file = Absent, trace = []\<rparr>"
  using force_reauth_clears_cache [of "\<lparr>cache_file = Stored (token_until 4600), trace = []\<rparr>" offline]
  by (simp add: force_reauth_def offline_def emit_def)

text \<open>
  Claim C8 as stated fails: when \<^verbatim>\<open>os.remove\<close> raises, the cache is still there afterwards.
\<close>

theorem force_reauth_keeps_cache_counterexample:
  "\<not> (\<forall>S w. cache_file (force_reauth S w) = Absent)"
proof
  assume "\<forall>S w. cache_file (force_reauth S w) = Absent"
  then have "cache_file (force_reauth (offline\<lparr>can_remove := False\<rparr>)
      \<lparr>cache_file = Stored (token_until 4600), trace = []\<rparr>) = Absent"
    by blast
  then show False by (simp add: force_reauth_def offline_def emit_def)
qed

subsection \<open>Playback dispatch\<close>

lemma first_active_dicts:
  assumes "\<forall>d \<in> set ds. \<exists>kvs. d = JObj kvs"
  shows "first_active ds =
           Inr (map_option (\<lambda>d. dev_field d ''id'')
                  (find (\<lambda>d. truthy (dev_field d ''is_active'')) ds))"
  using assms
proof (induction ds)
  case Nil
  show ?case by simp
next
  case (Cons d ds)
  then obtain kvs where d: "d = JObj kvs" by auto
  show ?case using Cons by (simp add: d dev_field_def)
qed

lemma pick_device_dicts:
  assumes "map_of resp ''devices'' = Some (JArr ds)"
    and "\<forall>d \<in> set ds. \<exists>kvs. d = JObj kvs"
  shows "pick_device (JObj resp) =
           Inr (case find (\<lambda>d. truthy (dev_field d ''is_active'')) ds of
                  Some d \<Rightarrow> dev_field d ''id''
                | None \<Rightarrow> (case ds of [] \<Rightarrow> JNull | d # _ \<Rightarrow> dev_field d ''id''))"
proof (cases ds)
  case Nil
  with assms(1) show ?thesis by (simp add: pick_device_def)
next
  case (Cons d ds')
  then obtain kvs where d: "d = JObj kvs" using assms(2) by auto
  have "py_get d ''id'' JNull = Inr (dev_field d ''id'')" by (simp add: d dev_field_def)
  then show ?thesis
    using assms(1) first_active_dicts [OF assms(2)] Cons
    by (simp add: pick_device_def split: option.splits)
qed

lemma get_active_device_id_empty:
  assumes "sp_devices S a = Inr (JObj resp)" and "map_of resp ''devices'' = Some (JArr [])"
  shows "get_active_device_id S a w = (JNull, emit [Devices a] w)"
  using assms by (simp add: get_active_device_id_def pick_device_def Let_def)

lemma write_cache_events:
  "\<exists>es. trace (write_cache S t w) = trace w @ es \<and>
        (\<forall>ev \<in> set es. ev \<noteq> Print ''API playback failed:'' \<and> (\<forall>a d u. ev \<noteq> StartPlayback a d u))"
  by (cases "cache_write S") (auto simp: write_cache_def emit_def)

lemma refresh_if_expired_events:
  assumes "refresh_if_expired S sp oauth token_info w = (r, w1)"
  shows "\<exists>es. trace w1 = trace w @ es \<and>
        (\<forall>ev \<in> set es. ev \<noteq> Print ''API playback failed:'' \<and> (\<forall>a d u. ev \<noteq> StartPlayback a d u))"
  using assms
  by (auto simp: refresh_if_expired_def write_cache_def emit_def Let_def
      split: if_splits sum.splits bool.splits write_outcome.splits)

lemma fallback_open_events:
  "\<exists>es. trace (fallback_open S uri w) = trace w @ Print ''API playback failed:'' # es \<and>
        (\<forall>ev \<in> set es. ev \<noteq> Print ''API playback failed:'' \<and> (\<forall>a d u. ev \<noteq> StartPlayback a d u))"
  by (auto simp: fallback_open_def emit_def Let_def split: option.splits)

lemma start_playback_empty:
  assumes empty: "\<forall>a. \<exists>resp. sp_devices S a = Inr (JObj resp) \<and> map_of resp ''devices'' = Some (JArr [])"
  shows "\<exists>w1 es. start_playback S sp oauth token_info uri w = (False, fallback_open S uri w1) \<and>
           trace w1 = trace w @ es \<and>
           (\<forall>ev \<in> set es. ev \<noteq> Print ''API playback failed:'' \<and> (\<forall>a d u. ev \<noteq> StartPlayback a d u))"
proof -
  obtain r w0 where r: "refresh_if_expired S sp oauth token_info w = (r, w0)"
    by (cases "refresh_if_expired S sp oauth token_info w") auto
  from refresh_if_expired_events [OF r] obtain es where
    es: "trace w0 = trace w @ es"
    and q: "\<forall>ev \<in> set es. ev \<noteq> Print ''API playback failed:'' \<and> (\<forall>a d u. ev \<noteq> StartPlayback a d u)"
    by blast
  show ?thesis
  proof (cases r)
    case (Inl e)
    then have "start_playback S sp oauth token_info uri w = (False, fallback_open S uri w0)"
      using r by (simp add: start_playback_def api_playback_def)
    with es q show ?thesis by blast
  next
    case (Inr sp')
    from empty obtain resp where "sp_devices S sp' = Inr (JObj resp)"
      and "map_of resp ''devices'' = Some (JArr [])" by blast
    then have g: "get_active_device_id S sp' w0 = (JNull, emit [Devices sp'] w0)"
      by (rule get_active_device_id_empty)
    have s: "start_playback S sp oauth token_info uri w = (False, fallback_open S uri (emit [Devices sp'] w0))"
      using r Inr g by (simp add: start_playback_def api_playback_def)
    have "trace (emit [Devices sp'] w0) = trace w @ (es @ [Devices sp'])"
      using es by (simp add: emit_def)
    moreover have "\<forall>ev \<in> set (es @ [Devices sp']).
        ev \<noteq> Print ''API playback failed:'' \<and> (\<forall>a d u. ev \<noteq> StartPlayback a d u)"
      using q by auto
    ultimately show ?thesis using s by blast
  qed
qed

text \<open>
  Claim C6. From a device list of the playback API, \<^verbatim>\<open>get_active_device_id\<close> returns the
  id of the first device flagged active, or else of the first device of the list. When
  the list is empty, \<^verbatim>\<open>start_playback\<close> returns false, issues no start-playback call, and
  runs the fallback launch exactly once.
\<close>

theorem device_choice_and_empty_list:
  "(\<forall>resp ds.
      sp_devices S sp = Inr (JObj resp) \<and> map_of resp ''devices'' = Some (JArr ds) \<and>
      (\<forall>d \<in> set ds. \<exists>kvs. d = JObj kvs) \<longrightarrow>
      get_active_device_id S sp w =
        (case find (\<lambda>d. truthy (dev_field d ''is_active'')) ds of
           Some d \<Rightarrow> dev_field d ''id''
         | None \<Rightarrow> (case ds of [] \<Rightarrow> JNull | d # _ \<Rightarrow> dev_field d ''id''),
         emit [Devices sp] w))
   \<and> ((\<forall>a. \<exists>resp. sp_devices S a = Inr (JObj resp) \<and> map_of resp ''devices'' = Some (JArr [])) \<longrightarrow>
        fst (start_playback S sp oauth token_info uri w) = False \<and>
        (\<exists>w1. snd (start_playback S sp oauth token_info uri w) = fallback_open S uri w1) \<and>
        (\<forall>a d u. StartPlayback a d u
            \<notin> set (events_since w (snd (start_playback S sp oauth token_info uri w)))) \<and>
        count_list (events_since w (snd (start_playback S sp oauth token_info uri w)))
          (Print ''API playback failed:'') = 1)"
proof (intro conjI allI impI)
  fix resp ds
  assume h: "sp_devices S sp = Inr (JObj resp) \<and> map_of resp ''devices'' = Some (JArr ds) \<and>
      (\<forall>d \<in> set ds. \<exists>kvs. d = JObj kvs)"
  then have "pick_device (JObj resp) =
           Inr (case find (\<lambda>d. truthy (dev_field d ''is_active'')) ds of
                  Some d \<Rightarrow> dev_field d ''id''
                | None \<Rightarrow> (case ds of [] \<Rightarrow> JNull | d # _ \<Rightarrow> dev_field d ''id''))"
    using pick_device_dicts by blast
  then show "get_active_device_id S sp w =
        (case find (\<lambda>d. truthy (dev_field d ''is_active'')) ds of
           Some d \<Rightarrow> dev_field d ''id''
         | None \<Rightarrow> (case ds of [] \<Rightarrow> JNull | d # _ \<Rightarrow> dev_field d ''id''),
         emit [Devices sp] w)"
    using h by (simp add: get_active_device_id_def Let_def)
next
  assume empty: "\<forall>a. \<exists>resp. sp_devices S a = Inr (JObj resp) \<and> map_of resp ''devices'' = Some (JArr [])"
  from start_playback_empty [OF empty, of sp oauth token_info uri w] obtain w1 es where
    s: "start_playback S sp oauth token_info uri w = (False, fallback_open S uri w1)"
    and t1: "trace w1 = trace w @ es"
    and q: "\<forall>ev \<in> set es. ev \<noteq> Print ''API playback failed:'' \<and> (\<forall>a d u. ev \<noteq> StartPlayback a d u)"
    by blast
  from fallback_open_events [of S uri w1] obtain fs where
    t2: "trace (fallback_open S uri w1) = trace w1 @ Print ''API playback failed:'' # fs"
    and q2: "\<forall>ev \<in> set fs. ev \<noteq> Print ''API playback failed:'' \<and> (\<forall>a d u. ev \<noteq> StartPlayback a d u)"
    by blast
  have ev: "events_since w (snd (start_playback S sp oauth token_info uri w)) =
      es @ Print ''API playback failed:'' # fs"
    by (simp add: s t1 t2 events_since_def)
  show "fst (start_playback S sp oauth token_info uri w) = False" by (simp add: s)
  show "\<exists>w1. snd (start_playback S sp oauth token_info uri w) = fallback_open S uri w1"
    using s by auto
  show "\<And>a d u. StartPlayback a d u
            \<notin> set (events_since w (snd (start_playback S sp oauth token_info uri w)))"
    unfolding ev using q q2 by auto
  have "Print ''API playback failed:'' \<notin> set es" "Print ''API playback failed:'' \<notin> set fs"
    using q q2 by auto
  then show "count_list (events_since w (snd (start_playback S sp oauth token_info uri w)))
          (Print ''API playback failed:'') = 1"
    unfolding ev by simp
qed

text \<open>
  Two devices of which the second is active; and an empty device list, where the
  fallback tries the OS handler, the shell and then the browser.
\<close>

theorem device_choice_and_empty_list_witness:
  "get_active_device_id (offline\<lparr>sp_devices := (\<lambda>sp. Inr two_devices)\<rparr>) (JStr ''A1'')
       \<lparr>cache_file = Absent, trace = []\<rparr> =
     (JStr ''laptop'', \<lparr>cache_file = Absent, trace = [Devices (JStr ''A1'')]\<rparr>) \<and>
   start_playback offline (JStr ''A1'') True (token_until 4600)
       ''spotify:playlist:37i9dQZF1DXdPec7aLTmlC'' \<lparr>cache_file = Absent, trace = []\<rparr> =
     (False, \<lparr>cache_file = Absent,
        trace = [Devices (JStr ''A1''), Print ''API playback failed:'',
                 Startfile ''spotify:playlist:37i9dQZF1DXdPec7aLTmlC'',
                 CmdStart ''spotify:playlist:37i9dQZF1DXdPec7aLTmlC'',
                 OpenBrowser ''https://open.spotify.com/playlist/37i9dQZF1DXdPec7aLTmlC'']\<rparr>)"
  using device_choice_and_empty_list [of offline "JStr ''A1''" "\<lparr>cache_file = Absent, trace = []\<rparr>"
      True "token_until 4600" "''spotify:playlist:37i9dQZF1DXdPec7aLTmlC''"]
  by (simp add: offline_def two_devices_def get_active_device_id_def pick_device_def
      start_playback_def api_playback_def refresh_if_expired_def fallback_open_def
      startswith_def last_segment_def emit_def Let_def)

subsection \<open>Capture and session state\<close>

text \<open>
  Claim C7. The capture key while no emotion has been seen: the loop continues, the only
  event is the message about nothing to capture; no playlist lookup, no credential
  acquisition and no playback call is made, and the cache file is untouched.
\<close>

theorem capture_without_emotion:
  assumes "current_emotion sess = None"
  shows "on_key S 113 sess w =
           (Continue, emit [Print ''No emotion detected yet. Keep your face in frame and try again.''] w)
         \<and> cache_file (snd (on_key S 113 sess w)) = cache_file w
         \<and> events_since w (snd (on_key S 113 sess w)) =
             [Print ''No emotion detected yet. Keep your face in frame and try again.'']"
  using assms by (simp add: on_key_def capture_def emit_def events_since_def)

text \<open>
  The capture key pressed in the initial session.
\<close>

theorem capture_without_emotion_witness:
  "current_emotion initial_session = None \<and>
   on_key offline 113 initial_session \<lparr>cache_file = Absent, trace = []\<rparr> =
     (Continue, \<lparr>cache_file = Absent,
        trace = [Print ''No emotion detected yet. Keep your face in frame and try again.'']\<rparr>)"
  using capture_without_emotion [of initial_session offline "\<lparr>cache_file = Absent, trace = []\<rparr>"]
  by (simp add: initial_session_def emit_def)

lemma lower_names: "n \<in> set EMOTION_NAMES \<Longrightarrow> lower n = n"
  by (auto simp: EMOTION_NAMES_def lower_def lower_char_def)

text \<open>
  Claim C10. A label that lower-cases to one of the 8 emotion names has a non-empty
  playlist URI, so the capture action passes the unmapped-emotion check and goes on to
  the credential and playback steps with that URI.
\<close>

theorem every_emotion_name_has_playlist:
  assumes "lower s \<in> set EMOTION_NAMES"
  shows "\<exists>uri. get_playlist_for_emotion s = Some uri \<and> uri \<noteq> [] \<and>
           (\<forall>S sess w. current_emotion sess = Some s \<longrightarrow>
              capture S sess w =
                play_captured S uri (emit [Print ''Captured emotion:'', Call ''get_playlist_for_emotion''] w))"
proof -
  from assms have "lower s = ''anger'' \<or> lower s = ''content'' \<or> lower s = ''disgust'' \<or>
      lower s = ''fear'' \<or> lower s = ''happy'' \<or> lower s = ''neutral'' \<or> lower s = ''sad'' \<or>
      lower s = ''surprise''"
    by (simp add: EMOTION_NAMES_def)
  then obtain uri where u: "get_playlist_for_emotion s = Some uri" and ne: "uri \<noteq> []"
    by (auto simp: get_playlist_for_emotion_def PLAYLISTS_def)
  then show ?thesis by (simp add: capture_def Let_def)
qed

text \<open>
  The label Happy, capitalised.
\<close>

theorem every_emotion_name_has_playlist_witness:
  "lower ''Happy'' \<in> set EMOTION_NAMES \<and>
   get_playlist_for_emotion ''Happy'' = Some ''spotify:playlist:37i9dQZF1DXdPec7aLTmlC''"
  using every_emotion_name_has_playlist [of "''Happy''"]
  by (simp add: EMOTION_NAMES_def lower_def lower_char_def get_playlist_for_emotion_def PLAYLISTS_def)

lemma str_nat_nonempty: "str_nat n \<noteq> []"
  by (subst str_nat.simps) simp

lemma dominant_name_nonempty:
  assumes "dominant_name c = Inr n"
  shows "n \<noteq> []"
proof (cases "c < 8")
  case False
  with assms have "n = str_int c" by (simp add: dominant_name_def EMOTION_NAMES_def)
  then show ?thesis by (simp add: str_int_def str_nat_nonempty)
next
  case True
  with assms have "py_index EMOTION_NAMES c = Inr n" by (simp add: dominant_name_def EMOTION_NAMES_def)
  then have "n \<in> set EMOTION_NAMES"
    by (auto simp: py_index_def split: if_splits)
  then show ?thesis by (auto simp: EMOTION_NAMES_def)
qed

lemma detect_and_draw_label_nonempty:
  assumes "detect_and_draw V fr imgsz conf iou = Inr (annotated, Some n, p)"
  shows "n \<noteq> []"
proof -
  from assms obtain st where run: "detect_and_draw_traced V fr imgsz conf iou = Inr st"
    and n: "dominant_emotion st = Some n"
    by (auto simp: detect_and_draw_def split: sum.splits)
  from detect_and_draw_traced_inv [OF run] obtain rs where "dominance_inv st rs" by blast
  with n obtain c where "dominant_name c = Inr n" unfolding dominance_inv_def by blast
  then show ?thesis by (rule dominant_name_nonempty)
qed

text \<open>
  Claim C9, amended. After a processed frame whose dominant label is not none, the
  session state is the label and confidence the aggregator returned for that frame;
  after a frame whose dominant label is none the session state is left as it was, so
  it holds the latest reading that was not none. The capture action of that iteration
  reads this state.
\<close>

theorem session_keeps_last_seen_emotion:
  assumes "ret t"
    and "detect_and_draw V (shot t) 640 CONFIDENCE (45 / 100) = Inr (annotated, dom_emotion, dom_conf)"
  shows "\<exists>c sess' w'. loop_body V S t (sess, w) = Inr (c, sess', w') \<and>
           (dom_emotion \<noteq> None \<longrightarrow> current_emotion sess' = dom_emotion \<and> current_conf sess' = dom_conf) \<and>
           (dom_emotion = None \<longrightarrow> sess' = sess) \<and>
           (key t = 113 \<longrightarrow>
              (c, w') = capture S sess'
                (emit [Imshow (annotated\<lparr>drawn := drawn annotated @
                   [PutText (Status (status_name (current_emotion sess')) (current_conf sess'))
                      10 30 (255, 255, 255)]\<rparr>)] w))"
proof -
  define sess' where "sess' = update_session dom_emotion dom_conf sess"
  define w1 where "w1 = emit [Imshow (annotated\<lparr>drawn := drawn annotated @
                   [PutText (Status (status_name (current_emotion sess')) (current_conf sess'))
                      10 30 (255, 255, 255)]\<rparr>)] w"
  obtain c w' where k: "on_key S (key t) sess' w1 = (c, w')" by (cases "on_key S (key t) sess' w1") auto
  have body: "loop_body V S t (sess, w) = Inr (c, sess', w')"
    using assms k by (simp add: loop_body_def Let_def sess'_def w1_def)
  have some: "current_emotion sess' = dom_emotion \<and> current_conf sess' = dom_conf" if "dom_emotion \<noteq> None"
  proof -
    from that obtain n where n: "dom_emotion = Some n" by auto
    then have "n \<noteq> []" using assms(2) detect_and_draw_label_nonempty by blast
    then show ?thesis by (simp add: sess'_def update_session_def n)
  qed
  have none: "sess' = sess" if "dom_emotion = None"
    using that by (simp add: sess'_def update_session_def)
  have q: "(c, w') = capture S sess' w1" if "key t = 113"
    using k that by (simp add: on_key_def)
  show ?thesis
    using body some none q unfolding w1_def
    by (intro exI[of _ c] exI[of _ sess'] exI[of _ w']) simp
qed

text \<open>
  A frame with two faces, processed from the initial session with no key pressed.
\<close>

theorem session_keeps_last_seen_emotion_witness:
  "ret \<lparr>ret = True, shot = cam_frame, key = 255\<rparr> \<and>
   loop_body two_faces offline \<lparr>ret = True, shot = cam_frame, key = 255\<rparr>
       (initial_session, \<lparr>cache_file = Absent, trace = []\<rparr>) =
     Inr (Continue, \<lparr>current_emotion = Some ''happy'', current_conf = 9 / 10\<rparr>,
          \<lparr>cache_file = Absent, trace = [Imshow \<lparr>height = 480, width = 640, pixels = 0, drawn =
       [Rectangle 93 93 157 157 (0, 200, 0), PutText (NameConf ''happy'' (9 / 10)) 93 85 (0, 200, 0),
        Rectangle 291 111 369 189 (0, 200, 0), PutText (NameConf ''sad'' (7 / 10)) 291 103 (0, 200, 0),
        PutText (Status ''happy'' (9 / 10)) 10 30 (255, 255, 255)]\<rparr>]\<rparr>)"
  using session_keeps_last_seen_emotion [of "\<lparr>ret = True, shot = cam_frame, key = 255\<rparr>" two_faces
      "\<lparr>height = 480, width = 640, pixels = 0, drawn =
       [Rectangle 93 93 157 157 (0, 200, 0), PutText (NameConf ''happy'' (9 / 10)) 93 85 (0, 200, 0),
        Rectangle 291 111 369 189 (0, 200, 0), PutText (NameConf ''sad'' (7 / 10)) 291 103 (0, 200, 0)]\<rparr>"
      "Some ''happy''" "9 / 10" offline initial_session "\<lparr>cache_file = Absent, trace = []\<rparr>"]
  by (simp add: loop_body_def agg_eval two_faces_def update_session_def initial_session_def
      status_name_def on_key_def emit_def)

text \<open>
  Claim C9 as stated fails: after a frame with no detection the session still holds the
  earlier emotion, not the none that the aggregator returned.
\<close>

theorem session_not_latest_counterexample:
  "\<not> (\<forall>V S t sess w c sess' w' annotated dom_emotion dom_conf.
        ret t \<longrightarrow>
        loop_body V S t (sess, w) = Inr (c, sess', w') \<longrightarrow>
        detect_and_draw V (shot t) 640 CONFIDENCE (45 / 100) = Inr (annotated, dom_emotion, dom_conf) \<longrightarrow>
        current_emotion sess' = dom_emotion \<and> current_conf sess' = dom_conf)"
proof
  assume a: "\<forall>V S t sess w c sess' w' annotated dom_emotion dom_conf.
        ret t \<longrightarrow>
        loop_body V S t (sess, w) = Inr (c, sess', w') \<longrightarrow>
        detect_and_draw V (shot t) 640 CONFIDENCE (45 / 100) = Inr (annotated, dom_emotion, dom_conf) \<longrightarrow>
        current_emotion sess' = dom_emotion \<and> current_conf sess' = dom_conf"
  define t where "t = \<lparr>ret = True, shot = cam_frame, key = 255\<rparr>"
  define sess where "sess = \<lparr>current_emotion = Some ''happy'', current_conf = 9 / 10\<rparr>"
  define w where "w = \<lparr>cache_file = Absent, trace = []\<rparr>"
  have d: "detect_and_draw blank_view (shot t) 640 CONFIDENCE (45 / 100) = Inr (cam_frame, None, 0)"
    by (simp add: agg_eval blank_view_def t_def)
  have b: "loop_body blank_view offline t (sess, w) =
      Inr (Continue, sess, emit [Imshow (cam_frame\<lparr>drawn := drawn cam_frame @
             [PutText (Status ''happy'' (9 / 10)) 10 30 (255, 255, 255)]\<rparr>)] w)"
    using d by (simp add: loop_body_def t_def update_session_def sess_def status_name_def on_key_def)
  have r: "ret t" by (simp add: t_def)
  from a r b d have "current_emotion sess = None" by blast
  then show False by (simp add: sess_def)
qed

end
